theory Spec2Isabelle
  imports Main "HOL-Library.Word" "HOL-Library.Multiset"
begin

unbundle bit_operations_syntax

section \<open>Machine types and raw bytes\<close>

text \<open>
  The maps of \<^verbatim>\<open>distributed_map.hpp\<close> ship keys and (key,value) pairs as raw bytes
  (\<^verbatim>\<open>reinterpret_cast<const uint8_t*>(&key)\<close>, \<^verbatim>\<open>sizeof(key)\<close>). C \<^verbatim>\<open>int\<close> is a 32-bit
  word read in two's complement (\<open>sint\<close>), \<^verbatim>\<open>std::size_t\<close> and \<^verbatim>\<open>uint64_t\<close> are 64-bit words,
  \<^verbatim>\<open>count_t\<close> is \<^verbatim>\<open>uint32_t\<close>.
\<close>

type_synonym byte = "8 word"
type_synonym c_int = "32 word"
type_synonym size_t = "64 word"
type_synonym count_t = "32 word"

text \<open>
  The object representation of a type: its \<^verbatim>\<open>sizeof\<close>, the bytes of a value, and the
  value read back from the first \<^verbatim>\<open>sizeof\<close> bytes of a buffer. The template parameters
  \<^verbatim>\<open>K\<close> and \<^verbatim>\<open>std::pair<K, T>\<close> each come with one.
\<close>

record 'a layout =
  size_of :: nat
  to_bytes :: "'a \<Rightarrow> byte list"
  from_bytes :: "byte list \<Rightarrow> 'a"

text \<open>
  A trivially-copyable type: every value occupies exactly \<^verbatim>\<open>sizeof\<close> bytes (at least
  one), and reading the bytes back gives the value.
\<close>

definition trivially_copyable :: "'a layout \<Rightarrow> bool" where
  "trivially_copyable L \<longleftrightarrow>
     0 < size_of L \<and> (\<forall>x. length (to_bytes L x) = size_of L \<and> from_bytes L (to_bytes L x) = x)"

text \<open>\<^verbatim>\<open>static_cast<int>\<close> of a \<^verbatim>\<open>std::size_t\<close>: the low 32 bits, two's complement.\<close>

definition int_of_size_t :: "nat \<Rightarrow> int" where
  "int_of_size_t n = sint (word_of_nat n :: c_int)"

definition INT_MAX :: nat where
  "INT_MAX = 2147483647"

section \<open>Exceptions\<close>

datatype exn =
  RuntimeError string
  | DivisionByZero
  | BadFunctionCall

section \<open>The state of one rank's map object\<close>

text \<open>
  A message handed to \<^verbatim>\<open>commLayer.sendMessage(msg, count, dstRank, tag)\<close>: destination
  rank, tag and the \<^verbatim>\<open>count\<close> bytes.
\<close>

type_synonym message = "c_int \<times> c_int \<times> byte list"

text \<open>
  The data members of \<^verbatim>\<open>_distributed_map_base\<close>. The communication layer is a template
  parameter; of it the class uses \<^verbatim>\<open>getCommSize()\<close> (field \<open>comm_size\<close>, the constructor's
  argument) and \<^verbatim>\<open>sendMessage\<close> (field \<open>sent\<close>, the messages handed over so far, in
  order). The local container is kept in iteration order; \<^verbatim>\<open>std::function\<close> members are
  \<open>None\<close> when empty (\<^verbatim>\<open>nullptr\<close>). The answer callback works on a value \<open>'u\<close> of the
  caller's.
\<close>

record ('k, 't, 'u) dmap =
  comm_size :: c_int
  sent :: "message list"
  hashFunct :: "'k \<Rightarrow> size_t"
  local_map :: "('k \<times> 't) list"
  has_pending_inserts :: bool
  has_pending_lookups :: bool
  lookupAnswerCallbackFunc :: "('k \<times> 't \<Rightarrow> 'u \<Rightarrow> 'u) option"

definition INSERT_MPI_TAG :: c_int where
  "INSERT_MPI_TAG = 13"

definition LOOKUP_MPI_TAG :: c_int where
  "LOOKUP_MPI_TAG = 14"

definition LOOKUP_ANSWER_MPI_TAG :: c_int where
  "LOOKUP_ANSWER_MPI_TAG = 15"

text \<open>
  Modelled from the spec: the message-passing substrate (point-to-point send, reliable and
  ordered) is an external collaborator. \<^verbatim>\<open>sendMessage\<close> records the message for its
  destination; \<^verbatim>\<open>flush(tag)\<close> waits until the messages of the tag are out and changes
  nothing of the sender's.
\<close>

definition sendMessage ::
  "('k, 't, 'u) dmap \<Rightarrow> byte list \<Rightarrow> c_int \<Rightarrow> c_int \<Rightarrow> ('k, 't, 'u) dmap" where
  "sendMessage s msg dstRank tag = s\<lparr>sent := sent s @ [(dstRank, tag, msg)]\<rparr>"

definition commLayer_flush :: "('k, 't, 'u) dmap \<Rightarrow> c_int \<Rightarrow> ('k, 't, 'u) dmap" where
  "commLayer_flush s tag = s"

section \<open>\<^verbatim>\<open>_distributed_map_base\<close>\<close>

definition sendKey ::
  "'k layout \<Rightarrow> ('k, 't, 'u) dmap \<Rightarrow> 'k \<Rightarrow> c_int \<Rightarrow> c_int \<Rightarrow> ('k, 't, 'u) dmap" where
  "sendKey Kl s key dstRank tag = sendMessage s (to_bytes Kl key) dstRank tag"

definition sendPair ::
  "('k \<times> 't) layout \<Rightarrow> ('k, 't, 'u) dmap \<Rightarrow> 'k \<times> 't \<Rightarrow> c_int \<Rightarrow> c_int \<Rightarrow> ('k, 't, 'u) dmap" where
  "sendPair Pl s keyValue dstRank tag = sendMessage s (to_bytes Pl keyValue) dstRank tag"

text \<open>
  \<^verbatim>\<open>int size = commLayer.getCommSize(); return hashFunct(key) % size;\<close>
  The hash is a \<^verbatim>\<open>std::size_t\<close>, so \<^verbatim>\<open>size\<close> is converted to \<^verbatim>\<open>std::size_t\<close> (sign
  extension), the remainder is unsigned, and the result is narrowed to \<^verbatim>\<open>int\<close>. A
  remainder by zero is undefined in C++; the model stops the call with \<open>DivisionByZero\<close>.
\<close>

definition getTargetRank :: "('k, 't, 'u) dmap \<Rightarrow> 'k \<Rightarrow> exn + c_int" where
  "getTargetRank s key =
     (let size = comm_size s in
      if size = 0 then Inl DivisionByZero
      else Inr (ucast (hashFunct s key mod (scast size :: size_t))))"

definition flush :: "('k, 't, 'u) dmap \<Rightarrow> ('k, 't, 'u) dmap" where
  "flush s =
     (let s1 = (if has_pending_inserts s
                then (commLayer_flush s INSERT_MPI_TAG)\<lparr>has_pending_inserts := False\<rparr>
                else s)
      in if has_pending_lookups s1
         then (commLayer_flush (commLayer_flush s1 LOOKUP_MPI_TAG) LOOKUP_ANSWER_MPI_TAG)
                \<lparr>has_pending_lookups := False\<rparr>
         else s1)"

text \<open>
  A call that may throw returns the exception (if any) and the state the object is left
  in.
\<close>

definition asyncLookup ::
  "'k layout \<Rightarrow> ('k, 't, 'u) dmap \<Rightarrow> 'k \<Rightarrow> exn option \<times> ('k, 't, 'u) dmap" where
  "asyncLookup Kl s key =
     (if lookupAnswerCallbackFunc s = None
      then (Some (RuntimeError ''ERROR: Callback function not set!''), s)
      else (case getTargetRank s key of
              Inl e \<Rightarrow> (Some e, s)
            | Inr targetRank \<Rightarrow>
                (None, (sendKey Kl s key targetRank LOOKUP_MPI_TAG)\<lparr>has_pending_lookups := True\<rparr>)))"

definition setLookupAnswerCallback ::
  "('k, 't, 'u) dmap \<Rightarrow> ('k \<times> 't \<Rightarrow> 'u \<Rightarrow> 'u) option \<Rightarrow> ('k, 't, 'u) dmap" where
  "setLookupAnswerCallback s callbackFunction = s\<lparr>lookupAnswerCallbackFunc := callbackFunction\<rparr>"


text \<open>
  Deserialisation, as every receive callback does it:
  \<^verbatim>\<open>K* keys = reinterpret_cast<K*>(msg); int key_count = count / sizeof(K);\<close>
  followed by a loop \<^verbatim>\<open>for (int i = 0; i < key_count; ++i)\<close> over \<^verbatim>\<open>keys[i]\<close>. The buffer
  holds \<^verbatim>\<open>count\<close> bytes.
\<close>

definition element_count :: "'a layout \<Rightarrow> byte list \<Rightarrow> int" where
  "element_count L msg = int_of_size_t (length msg div size_of L)"

definition element_at :: "'a layout \<Rightarrow> byte list \<Rightarrow> nat \<Rightarrow> 'a" where
  "element_at L msg i = from_bytes L (take (size_of L) (drop (i * size_of L) msg))"

definition deserialize :: "'a layout \<Rightarrow> byte list \<Rightarrow> 'a list" where
  "deserialize L msg = map (element_at L msg) [0..<nat (element_count L msg)]"

text \<open>\<^verbatim>\<open>local_map.equal_range(key)\<close>: the elements with that key, in iteration order.\<close>

definition equal_range :: "('k \<times> 't) list \<Rightarrow> 'k \<Rightarrow> ('k \<times> 't) list" where
  "equal_range m key = filter (\<lambda>it. fst it = key) m"

definition receivedLookupCallback ::
  "'k layout \<Rightarrow> ('k \<times> 't) layout \<Rightarrow> ('k, 't, 'u) dmap \<Rightarrow> byte list \<Rightarrow> c_int \<Rightarrow> ('k, 't, 'u) dmap" where
  "receivedLookupCallback Kl Pl s msg fromRank =
     fold (\<lambda>key s1.
             fold (\<lambda>it s2. sendPair Pl s2 it fromRank LOOKUP_ANSWER_MPI_TAG)
                  (equal_range (local_map s1) key) s1)
          (deserialize Kl msg) s"

text \<open>
  The answer callback is called once per received element. Calling an empty
  \<^verbatim>\<open>std::function\<close> throws \<^verbatim>\<open>std::bad_function_call\<close>.
\<close>

definition receivedLookupAnswerCallback ::
  "('k \<times> 't) layout \<Rightarrow> ('k, 't, 'u) dmap \<Rightarrow> byte list \<Rightarrow> c_int \<Rightarrow> 'u \<Rightarrow> exn + 'u" where
  "receivedLookupAnswerCallback Pl s msg fromRank u =
     (let elements = deserialize Pl msg in
      case lookupAnswerCallbackFunc s of
        None \<Rightarrow> (if elements = [] then Inr u else Inl BadFunctionCall)
      | Some f \<Rightarrow> Inr (fold f elements u))"

section \<open>\<^verbatim>\<open>distributed_multimap\<close>\<close>

text \<open>
  The local container is a \<^verbatim>\<open>std::unordered_multimap\<close>: \<^verbatim>\<open>insert\<close> always adds the
  element, and elements with equal keys are adjacent in iteration order. Where a new key
  goes among the others is unspecified in C++; the model puts it last.
\<close>

fun multimap_insert :: "'k \<times> 't \<Rightarrow> ('k \<times> 't) list \<Rightarrow> ('k \<times> 't) list" where
  "multimap_insert p [] = [p]"
| "multimap_insert p (q # qs) =
     (if fst q = fst p then p # q # qs else q # multimap_insert p qs)"

definition insert_pair ::
  "('k \<times> 't) layout \<Rightarrow> ('k, 't, 'u) dmap \<Rightarrow> 'k \<times> 't \<Rightarrow> exn option \<times> ('k, 't, 'u) dmap" where
  "insert_pair Pl s keyvalue =
     (case getTargetRank s (fst keyvalue) of
        Inl e \<Rightarrow> (Some e, s)
      | Inr targetRank \<Rightarrow>
          (None, (sendPair Pl s keyvalue targetRank INSERT_MPI_TAG)\<lparr>has_pending_inserts := True\<rparr>))"

definition insert_key_value ::
  "('k \<times> 't) layout \<Rightarrow> ('k, 't, 'u) dmap \<Rightarrow> 'k \<Rightarrow> 't \<Rightarrow> exn option \<times> ('k, 't, 'u) dmap" where
  "insert_key_value Pl s key val =
     (case getTargetRank s key of
        Inl e \<Rightarrow> (Some e, s)
      | Inr targetRank \<Rightarrow>
          (None, (sendPair Pl s (key, val) targetRank INSERT_MPI_TAG)\<lparr>has_pending_inserts := True\<rparr>))"

fun populate_loop ::
  "('k \<times> 't) layout \<Rightarrow> ('k, 't, 'u) dmap \<Rightarrow> ('k \<times> 't) list \<Rightarrow> exn option \<times> ('k, 't, 'u) dmap" where
  "populate_loop Pl s [] = (None, s)"
| "populate_loop Pl s (it # rest) =
     (case getTargetRank s (fst it) of
        Inl e \<Rightarrow> (Some e, s)
      | Inr targetRank \<Rightarrow> populate_loop Pl (sendPair Pl s it targetRank INSERT_MPI_TAG) rest)"

definition populate ::
  "('k \<times> 't) layout \<Rightarrow> ('k, 't, 'u) dmap \<Rightarrow> ('k \<times> 't) list \<Rightarrow> exn option \<times> ('k, 't, 'u) dmap" where
  "populate Pl s batch =
     (case populate_loop Pl s batch of
        (Some e, s1) \<Rightarrow> (Some e, s1)
      | (None, s1) \<Rightarrow> (None, commLayer_flush s1 INSERT_MPI_TAG))"

definition receivedInsertCallback ::
  "('k \<times> 't) layout \<Rightarrow> ('k, 't, 'u) dmap \<Rightarrow> byte list \<Rightarrow> c_int \<Rightarrow> ('k, 't, 'u) dmap" where
  "receivedInsertCallback Pl s msg fromRank =
     fold (\<lambda>element s1. s1\<lparr>local_map := multimap_insert element (local_map s1)\<rparr>)
          (deserialize Pl msg) s"

section \<open>\<^verbatim>\<open>distributed_counting_map\<close>\<close>

text \<open>
  The local container is a \<^verbatim>\<open>std::unordered_map<K, count_t>\<close>; \<^verbatim>\<open>local_map[key]++\<close>
  creates a missing entry with value 0 and then increments the 32-bit count.
\<close>

fun map_increment :: "'k \<Rightarrow> ('k \<times> count_t) list \<Rightarrow> ('k \<times> count_t) list" where
  "map_increment key [] = [(key, 0 + 1)]"
| "map_increment key (q # qs) =
     (if fst q = key then (fst q, snd q + 1) # qs else q # map_increment key qs)"

definition insert_key ::
  "'k layout \<Rightarrow> ('k, count_t, 'u) dmap \<Rightarrow> 'k \<Rightarrow> exn option \<times> ('k, count_t, 'u) dmap" where
  "insert_key Kl s key =
     (case getTargetRank s key of
        Inl e \<Rightarrow> (Some e, s)
      | Inr targetRank \<Rightarrow>
          (None, (sendKey Kl s key targetRank INSERT_MPI_TAG)\<lparr>has_pending_inserts := True\<rparr>))"

fun populate_keys_loop ::
  "'k layout \<Rightarrow> ('k, count_t, 'u) dmap \<Rightarrow> 'k list \<Rightarrow> exn option \<times> ('k, count_t, 'u) dmap" where
  "populate_keys_loop Kl s [] = (None, s)"
| "populate_keys_loop Kl s (it # rest) =
     (case getTargetRank s it of
        Inl e \<Rightarrow> (Some e, s)
      | Inr targetRank \<Rightarrow> populate_keys_loop Kl (sendKey Kl s it targetRank INSERT_MPI_TAG) rest)"

definition populate_keys ::
  "'k layout \<Rightarrow> ('k, count_t, 'u) dmap \<Rightarrow> 'k list \<Rightarrow> exn option \<times> ('k, count_t, 'u) dmap" where
  "populate_keys Kl s batch =
     (case populate_keys_loop Kl s batch of
        (Some e, s1) \<Rightarrow> (Some e, s1)
      | (None, s1) \<Rightarrow> (None, commLayer_flush s1 INSERT_MPI_TAG))"

definition receivedCountCallback ::
  "'k layout \<Rightarrow> ('k, count_t, 'u) dmap \<Rightarrow> byte list \<Rightarrow> c_int \<Rightarrow> ('k, count_t, 'u) dmap" where
  "receivedCountCallback Kl s msg fromRank =
     fold (\<lambda>key s1. s1\<lparr>local_map := map_increment key (local_map s1)\<rparr>)
          (deserialize Kl msg) s"


section \<open>Sequences of calls on one map object\<close>

text \<open>
  The calls that can reach a \<^verbatim>\<open>distributed_multimap\<close> during its lifetime: its public
  member functions and the receive callbacks run by the communication layer. A call that
  throws leaves the object as the exception found it.
\<close>

datatype ('k, 't, 'u) multimap_call =
  Flush
  | AsyncLookup 'k
  | SetLookupAnswerCallback "('k \<times> 't \<Rightarrow> 'u \<Rightarrow> 'u) option"
  | Insert "'k \<times> 't"
  | InsertKeyValue 'k 't
  | Populate "('k \<times> 't) list"
  | ReceivedInsert "byte list" c_int
  | ReceivedLookup "byte list" c_int

fun apply_multimap_call ::
  "'k layout \<Rightarrow> ('k \<times> 't) layout \<Rightarrow> ('k, 't, 'u) multimap_call \<Rightarrow> ('k, 't, 'u) dmap
     \<Rightarrow> ('k, 't, 'u) dmap" where
  "apply_multimap_call Kl Pl Flush s = flush s"
| "apply_multimap_call Kl Pl (AsyncLookup key) s = snd (asyncLookup Kl s key)"
| "apply_multimap_call Kl Pl (SetLookupAnswerCallback f) s = setLookupAnswerCallback s f"
| "apply_multimap_call Kl Pl (Insert keyvalue) s = snd (insert_pair Pl s keyvalue)"
| "apply_multimap_call Kl Pl (InsertKeyValue key val) s = snd (insert_key_value Pl s key val)"
| "apply_multimap_call Kl Pl (Populate batch) s = snd (populate Pl s batch)"
| "apply_multimap_call Kl Pl (ReceivedInsert msg fromRank) s = receivedInsertCallback Pl s msg fromRank"
| "apply_multimap_call Kl Pl (ReceivedLookup msg fromRank) s = receivedLookupCallback Kl Pl s msg fromRank"

datatype ('k, 'u) counting_call =
  CFlush
  | CAsyncLookup 'k
  | CSetLookupAnswerCallback "('k \<times> count_t \<Rightarrow> 'u \<Rightarrow> 'u) option"
  | CInsert 'k
  | CPopulate "'k list"
  | ReceivedCount "byte list" c_int
  | CReceivedLookup "byte list" c_int

fun apply_counting_call ::
  "'k layout \<Rightarrow> ('k \<times> count_t) layout \<Rightarrow> ('k, 'u) counting_call \<Rightarrow> ('k, count_t, 'u) dmap
     \<Rightarrow> ('k, count_t, 'u) dmap" where
  "apply_counting_call Kl Pl CFlush s = flush s"
| "apply_counting_call Kl Pl (CAsyncLookup key) s = snd (asyncLookup Kl s key)"
| "apply_counting_call Kl Pl (CSetLookupAnswerCallback f) s = setLookupAnswerCallback s f"
| "apply_counting_call Kl Pl (CInsert key) s = snd (insert_key Kl s key)"
| "apply_counting_call Kl Pl (CPopulate batch) s = snd (populate_keys Kl s batch)"
| "apply_counting_call Kl Pl (ReceivedCount msg fromRank) s = receivedCountCallback Kl s msg fromRank"
| "apply_counting_call Kl Pl (CReceivedLookup msg fromRank) s = receivedLookupCallback Kl Pl s msg fromRank"

section \<open>Routing data of a map object\<close>

text \<open>Two states of a map object route alike: same hash function, same communicator size.\<close>

definition same_routing :: "('k, 't, 'u) dmap \<Rightarrow> ('k, 't, 'u) dmap \<Rightarrow> bool" where
  "same_routing s s' \<longleftrightarrow> hashFunct s' = hashFunct s \<and> comm_size s' = comm_size s"

section \<open>Reading a lookup by its answers\<close>

text \<open>The messages a call has handed over: those of \<open>s'\<close> beyond those of \<open>s\<close>.\<close>

definition answers_sent :: "('k, 't, 'u) dmap \<Rightarrow> ('k, 't, 'u) dmap \<Rightarrow> message list" where
  "answers_sent s s' = drop (length (sent s)) (sent s')"

text \<open>
  The lookup callback read literally as "exactly one answer pair for each local pair whose
  key equals a queried key": the answers are, as a multiset, the local pairs whose key
  occurs in the batch, each once, addressed to the requesting rank.
\<close>

definition one_answer_per_matching_pair ::
  "'k layout \<Rightarrow> ('k \<times> 't) layout \<Rightarrow> ('k, 't, 'u) dmap \<Rightarrow> byte list \<Rightarrow> c_int \<Rightarrow> bool" where
  "one_answer_per_matching_pair Kl Pl s msg fromRank \<longleftrightarrow>
     mset (answers_sent s (receivedLookupCallback Kl Pl s msg fromRank))
       = mset (map (\<lambda>p. (fromRank, LOOKUP_ANSWER_MPI_TAG, to_bytes Pl p))
                   (filter (\<lambda>p. fst p \<in> set (deserialize Kl msg)) (local_map s)))"

section \<open>The constructors\<close>

text \<open>The object both constructors build from the communicator size and the hash function:
  nothing sent, an empty container, no answer callback.\<close>

definition new_map :: "c_int \<Rightarrow> ('k \<Rightarrow> size_t) \<Rightarrow> ('k, 't, 'u) dmap" where
  "new_map csize hashFunction =
     \<lparr>comm_size = csize, sent = [], hashFunct = hashFunction, local_map = [],
      has_pending_inserts = False, has_pending_lookups = False,
      lookupAnswerCallbackFunc = None\<rparr>"

text \<open>
  The constructors bind member functions to tags with \<^verbatim>\<open>commLayer.addReceiveCallback\<close>.
  The member functions by name:
\<close>

datatype member_function =
  ReceivedInsertCallback
  | ReceivedCountCallback
  | ReceivedLookupCallback
  | ReceivedLookupAnswerCallback

text \<open>
  \<^verbatim>\<open>distributed_multimap\<close>'s constructor binds, in this order,
  \<^verbatim>\<open>INSERT_MPI_TAG\<close> to \<^verbatim>\<open>&distributed_multimap::receivedCountCallback\<close>,
  \<^verbatim>\<open>LOOKUP_MPI_TAG\<close> to \<^verbatim>\<open>&distributed_multimap::receivedLookupCallback\<close> and
  \<^verbatim>\<open>LOOKUP_ANSWER_MPI_TAG\<close> to \<^verbatim>\<open>&distributed_multimap::receivedLookupAnswerCallback\<close>;
  \<^verbatim>\<open>distributed_counting_map\<close>'s constructor binds the same three names of its own class.
\<close>

definition distributed_multimap_callbacks :: "(c_int \<times> member_function) list" where
  "distributed_multimap_callbacks =
     [(INSERT_MPI_TAG, ReceivedCountCallback),
      (LOOKUP_MPI_TAG, ReceivedLookupCallback),
      (LOOKUP_ANSWER_MPI_TAG, ReceivedLookupAnswerCallback)]"

definition distributed_counting_map_callbacks :: "(c_int \<times> member_function) list" where
  "distributed_counting_map_callbacks =
     [(INSERT_MPI_TAG, ReceivedCountCallback),
      (LOOKUP_MPI_TAG, ReceivedLookupCallback),
      (LOOKUP_ANSWER_MPI_TAG, ReceivedLookupAnswerCallback)]"

text \<open>
  What a bound name runs on a received message, class by class. The two lookup callbacks
  are inherited from the base class; \<^verbatim>\<open>distributed_multimap\<close> declares
  \<^verbatim>\<open>receivedInsertCallback\<close> and no \<^verbatim>\<open>receivedCountCallback\<close>,
  \<^verbatim>\<open>distributed_counting_map\<close> declares \<^verbatim>\<open>receivedCountCallback\<close> and no
  \<^verbatim>\<open>receivedInsertCallback\<close>. A name the class does not have runs nothing (\<open>None\<close>).
  The result of a callback is the exception (if any), the object and the caller's value.
\<close>

fun distributed_multimap_member ::
  "'k layout \<Rightarrow> ('k \<times> 't) layout \<Rightarrow> member_function \<Rightarrow>
     (('k, 't, 'u) dmap \<Rightarrow> byte list \<Rightarrow> c_int \<Rightarrow> 'u \<Rightarrow> exn option \<times> ('k, 't, 'u) dmap \<times> 'u) option" where
  "distributed_multimap_member Kl Pl ReceivedInsertCallback =
     Some (\<lambda>s msg fromRank u. (None, receivedInsertCallback Pl s msg fromRank, u))"
| "distributed_multimap_member Kl Pl ReceivedCountCallback = None"
| "distributed_multimap_member Kl Pl ReceivedLookupCallback =
     Some (\<lambda>s msg fromRank u. (None, receivedLookupCallback Kl Pl s msg fromRank, u))"
| "distributed_multimap_member Kl Pl ReceivedLookupAnswerCallback =
     Some (\<lambda>s msg fromRank u.
             case receivedLookupAnswerCallback Pl s msg fromRank u of
               Inl e \<Rightarrow> (Some e, s, u)
             | Inr u' \<Rightarrow> (None, s, u'))"

fun distributed_counting_map_member ::
  "'k layout \<Rightarrow> ('k \<times> count_t) layout \<Rightarrow> member_function \<Rightarrow>
     (('k, count_t, 'u) dmap \<Rightarrow> byte list \<Rightarrow> c_int \<Rightarrow> 'u
        \<Rightarrow> exn option \<times> ('k, count_t, 'u) dmap \<times> 'u) option" where
  "distributed_counting_map_member Kl Pl ReceivedInsertCallback = None"
| "distributed_counting_map_member Kl Pl ReceivedCountCallback =
     Some (\<lambda>s msg fromRank u. (None, receivedCountCallback Kl s msg fromRank, u))"
| "distributed_counting_map_member Kl Pl ReceivedLookupCallback =
     Some (\<lambda>s msg fromRank u. (None, receivedLookupCallback Kl Pl s msg fromRank, u))"
| "distributed_counting_map_member Kl Pl ReceivedLookupAnswerCallback =
     Some (\<lambda>s msg fromRank u.
             case receivedLookupAnswerCallback Pl s msg fromRank u of
               Inl e \<Rightarrow> (Some e, s, u)
             | Inr u' \<Rightarrow> (None, s, u'))"

text \<open>
  A message of a tag arriving at a map object runs the member function its constructor
  bound to the tag; \<open>None\<close> when no member function of the class is bound to it.
\<close>

definition distributed_multimap_receive ::
  "'k layout \<Rightarrow> ('k \<times> 't) layout \<Rightarrow> c_int \<Rightarrow> ('k, 't, 'u) dmap \<Rightarrow> byte list \<Rightarrow> c_int \<Rightarrow> 'u
     \<Rightarrow> (exn option \<times> ('k, 't, 'u) dmap \<times> 'u) option" where
  "distributed_multimap_receive Kl Pl tag s msg fromRank u =
     (case map_of distributed_multimap_callbacks tag of
        None \<Rightarrow> None
      | Some name \<Rightarrow>
          (case distributed_multimap_member Kl Pl name of
             None \<Rightarrow> None
           | Some callback \<Rightarrow> Some (callback s msg fromRank u)))"

definition distributed_counting_map_receive ::
  "'k layout \<Rightarrow> ('k \<times> count_t) layout \<Rightarrow> c_int \<Rightarrow> ('k, count_t, 'u) dmap \<Rightarrow> byte list \<Rightarrow> c_int
     \<Rightarrow> 'u \<Rightarrow> (exn option \<times> ('k, count_t, 'u) dmap \<times> 'u) option" where
  "distributed_counting_map_receive Kl Pl tag s msg fromRank u =
     (case map_of distributed_counting_map_callbacks tag of
        None \<Rightarrow> None
      | Some name \<Rightarrow>
          (case distributed_counting_map_member Kl Pl name of
             None \<Rightarrow> None
           | Some callback \<Rightarrow> Some (callback s msg fromRank u)))"

section \<open>Reading the counting map\<close>

text \<open>The count stored for a key; a key without an entry counts as 0.\<close>

definition stored_count :: "('k \<times> count_t) list \<Rightarrow> 'k \<Rightarrow> count_t" where
  "stored_count m key = (case map_of m key of None \<Rightarrow> 0 | Some c \<Rightarrow> c)"

text \<open>
  A shard of the counting map receiving insert messages one after the other, each with its
  sending rank, and the keys these messages hold.
\<close>

definition receive_counts ::
  "'k layout \<Rightarrow> ('k, count_t, 'u) dmap \<Rightarrow> (byte list \<times> c_int) list \<Rightarrow> ('k, count_t, 'u) dmap" where
  "receive_counts Kl s msgs = fold (\<lambda>m s1. receivedCountCallback Kl s1 (fst m) (snd m)) msgs s"

definition received_keys :: "'k layout \<Rightarrow> (byte list \<times> c_int) list \<Rightarrow> 'k list" where
  "received_keys Kl msgs = concat (map (\<lambda>m. deserialize Kl (fst m)) msgs)"

text \<open>
  The counting map read literally as "the stored count of a key is the number of times it
  was inserted".
\<close>

definition count_is_number_of_inserts ::
  "'k layout \<Rightarrow> ('k, count_t, 'u) dmap \<Rightarrow> (byte list \<times> c_int) list \<Rightarrow> 'k \<Rightarrow> bool" where
  "count_is_number_of_inserts Kl s msgs key \<longleftrightarrow>
     unat (stored_count (local_map (receive_counts Kl s msgs)) key)
       = count_list (received_keys Kl msgs) key"

section \<open>A communicator of ranks\<close>

text \<open>
  The owner of a key among \<open>P\<close> ranks, as a rank number: the hash modulo \<open>P\<close>.
\<close>

definition owner :: "('k \<Rightarrow> size_t) \<Rightarrow> nat \<Rightarrow> 'k \<Rightarrow> nat" where
  "owner h P key = unat (h key) mod P"

text \<open>
  Modelled from the spec: the message-passing substrate delivers, reliably and in order,
  what \<^verbatim>\<open>sendMessage\<close> was given. The receive buffer a rank gets from one sender for one
  tag holds the bytes of the sender's messages with that destination and tag, in the order
  they were sent.
\<close>

definition payloads :: "c_int \<Rightarrow> c_int \<Rightarrow> message list \<Rightarrow> byte list" where
  "payloads dstRank tag msgs =
     concat (map (\<lambda>m. snd (snd m)) (filter (\<lambda>m. fst m = dstRank \<and> fst (snd m) = tag) msgs))"

text \<open>
  Modelled from the spec: the ranks of a communicator are the positions of a list of map
  objects. Delivering a tag runs, on every rank and for every sender in rank order, the
  given receive callback on the sender's buffer for that rank.
\<close>

definition deliver ::
  "(('k, 't, 'u) dmap \<Rightarrow> byte list \<Rightarrow> c_int \<Rightarrow> ('k, 't, 'u) dmap) \<Rightarrow> c_int
     \<Rightarrow> ('k, 't, 'u) dmap list \<Rightarrow> ('k, 't, 'u) dmap list" where
  "deliver callback tag ranks =
     map (\<lambda>d. fold (\<lambda>i s. callback s (payloads (of_nat d) tag (sent (ranks ! i))) (of_nat i))
                    [0..<length ranks] (ranks ! d))
         [0..<length ranks]"

text \<open>
  The answers arriving at rank \<open>r\<close>: \<open>receivedLookupAnswerCallback\<close> runs on the buffer of
  every sender in rank order and hands the answers to the caller's callback; an exception
  ends it.
\<close>

definition collect_answers ::
  "('k \<times> 't) layout \<Rightarrow> ('k, 't, 'u) dmap list \<Rightarrow> nat \<Rightarrow> 'u \<Rightarrow> exn + 'u" where
  "collect_answers Pl ranks r u =
     fold (\<lambda>i acc. case acc of
                     Inl e \<Rightarrow> Inl e
                   | Inr u1 \<Rightarrow>
                       receivedLookupAnswerCallback Pl (ranks ! r)
                         (payloads (of_nat r) LOOKUP_ANSWER_MPI_TAG (sent (ranks ! i))) (of_nat i) u1)
          [0..<length ranks] (Inr u)"

text \<open>The caller looks keys up one after the other; the first exception ends the loop.\<close>

fun lookup_all ::
  "'k layout \<Rightarrow> ('k, 't, 'u) dmap \<Rightarrow> 'k list \<Rightarrow> exn option \<times> ('k, 't, 'u) dmap" where
  "lookup_all Kl s [] = (None, s)"
| "lookup_all Kl s (key # rest) =
     (case asyncLookup Kl s key of
        (Some e, s1) \<Rightarrow> (Some e, s1)
      | (None, s1) \<Rightarrow> lookup_all Kl s1 rest)"

text \<open>
  Insert, then find, on a multimap whose insert messages are handed to
  \<open>receivedInsertCallback\<close>: rank \<open>r\<close> populates the map with a batch; the pairs are
  delivered to \<open>receivedInsertCallback\<close> on their target ranks; rank \<open>r\<close> looks up the given
  keys; the keys are delivered to \<open>receivedLookupCallback\<close> on their target ranks; the
  answers are delivered to \<open>receivedLookupAnswerCallback\<close> on rank \<open>r\<close>. The result is the
  caller's value after the answer callback has seen every answer.
\<close>

definition insert_then_find ::
  "'k layout \<Rightarrow> ('k \<times> 't) layout \<Rightarrow> ('k, 't, 'u) dmap list \<Rightarrow> nat \<Rightarrow> ('k \<times> 't) list \<Rightarrow> 'k list
     \<Rightarrow> 'u \<Rightarrow> exn + 'u" where
  "insert_then_find Kl Pl ranks r batch keys u =
     (case populate Pl (ranks ! r) batch of
        (Some e, s1) \<Rightarrow> Inl e
      | (None, s1) \<Rightarrow>
          let ranks1 = deliver (receivedInsertCallback Pl) INSERT_MPI_TAG (ranks[r := s1]) in
          (case lookup_all Kl (ranks1 ! r) keys of
             (Some e, s2) \<Rightarrow> Inl e
           | (None, s2) \<Rightarrow>
               let ranks2 = deliver (receivedLookupCallback Kl Pl) LOOKUP_MPI_TAG (ranks1[r := s2])
               in collect_answers Pl ranks2 r u))"

text \<open>
  A communicator of \<open>P\<close> freshly constructed maps with one hash function: nothing sent,
  nothing stored.
\<close>

definition fresh_cluster :: "('k \<Rightarrow> size_t) \<Rightarrow> ('k, 't, 'u) dmap list \<Rightarrow> bool" where
  "fresh_cluster h ranks \<longleftrightarrow>
     list_all (\<lambda>s. comm_size s = of_nat (length ranks) \<and> hashFunct s = h
                  \<and> sent s = [] \<and> local_map s = []) ranks"

text \<open>
  The part of a batch and of the looked-up keys that rank \<open>d\<close> owns, and the answers rank
  \<open>d\<close> gives: for every key it receives, in order, the pairs it stores under that key.
\<close>

definition shard_pairs :: "('k \<Rightarrow> size_t) \<Rightarrow> nat \<Rightarrow> ('k \<times> 't) list \<Rightarrow> nat \<Rightarrow> ('k \<times> 't) list" where
  "shard_pairs h P batch d = filter (\<lambda>p. owner h P (fst p) = d) batch"

definition shard_keys :: "('k \<Rightarrow> size_t) \<Rightarrow> nat \<Rightarrow> 'k list \<Rightarrow> nat \<Rightarrow> 'k list" where
  "shard_keys h P keys d = filter (\<lambda>key. owner h P key = d) keys"

definition shard_answers ::
  "('k \<Rightarrow> size_t) \<Rightarrow> nat \<Rightarrow> ('k \<times> 't) list \<Rightarrow> 'k list \<Rightarrow> nat \<Rightarrow> ('k \<times> 't) list" where
  "shard_answers h P batch keys d =
     concat (map (equal_range (fold multimap_insert (shard_pairs h P batch d) []))
                 (shard_keys h P keys d))"

section \<open>A small instance: one-byte keys and values\<close>

text \<open>
  \<^verbatim>\<open>K = T = uint8_t\<close>: a key is its own byte, a \<^verbatim>\<open>std::pair<uint8_t, uint8_t>\<close> is two
  bytes without padding, and \<^verbatim>\<open>std::hash<uint8_t>\<close> is the identity.
\<close>

definition byte_layout :: "byte layout" where
  "byte_layout = \<lparr>size_of = 1, to_bytes = (\<lambda>x. [x]),
                   from_bytes = (\<lambda>bs. case bs of [] \<Rightarrow> 0 | b # _ \<Rightarrow> b)\<rparr>"

definition byte_pair_layout :: "(byte \<times> byte) layout" where
  "byte_pair_layout = \<lparr>size_of = 2, to_bytes = (\<lambda>p. [fst p, snd p]),
                        from_bytes = (\<lambda>bs. case bs of a # b # _ \<Rightarrow> (a, b) | _ \<Rightarrow> (0, 0))\<rparr>"

definition byte_hash :: "byte \<Rightarrow> size_t" where
  "byte_hash key = ucast key"

definition demo_none :: "(byte, byte, (byte \<times> byte) list) dmap" where
  "demo_none = new_map 4 byte_hash"

text \<open>The same with an answer callback that collects the answers in a list.\<close>

definition demo_set :: "(byte, byte, (byte \<times> byte) list) dmap" where
  "demo_set = setLookupAnswerCallback (new_map 4 byte_hash) (Some (\<lambda>p u. u @ [p]))"

text \<open>A shard that stores three pairs, two of them under the key 1.\<close>

definition demo_stored :: "(byte, byte, (byte \<times> byte) list) dmap" where
  "demo_stored = demo_set\<lparr>local_map := [(1, 5), (1, 6), (2, 7)]\<rparr>"

text \<open>
  \<^verbatim>\<open>std::pair<uint8_t, uint32_t>\<close> on a little-endian LP64 machine: the key, three
  padding bytes, the four bytes of the count.
\<close>

definition byte_count_layout :: "(byte \<times> count_t) layout" where
  "byte_count_layout =
     \<lparr>size_of = 8,
      to_bytes = (\<lambda>p. [fst p, 0, 0, 0, ucast (snd p), ucast (drop_bit 8 (snd p)),
                         ucast (drop_bit 16 (snd p)), ucast (drop_bit 24 (snd p))]),
      from_bytes = (\<lambda>bs. case bs of
                      k # _ # _ # _ # c0 # c1 # c2 # c3 # _ \<Rightarrow>
                        (k, ucast c0 OR push_bit 8 (ucast c1) OR push_bit 16 (ucast c2)
                              OR push_bit 24 (ucast c3))
                    | _ \<Rightarrow> (0, 0))\<rparr>"

definition demo_counting :: "(byte, count_t, (byte \<times> count_t) list) dmap" where
  "demo_counting = new_map 1 byte_hash"

text \<open>Three ranks; the first has an answer callback that collects the answers.\<close>

definition demo_cluster :: "(byte, byte, (byte \<times> byte) list) dmap list" where
  "demo_cluster =
     [setLookupAnswerCallback (new_map 3 byte_hash) (Some (\<lambda>p u. u @ [p])),
      new_map 3 byte_hash, new_map 3 byte_hash]"


section \<open>Evaluating the small instance\<close>

lemmas demo_defs = demo_stored_def demo_set_def demo_none_def new_map_def
  setLookupAnswerCallback_def byte_layout_def byte_pair_layout_def byte_hash_def
  INSERT_MPI_TAG_def LOOKUP_MPI_TAG_def LOOKUP_ANSWER_MPI_TAG_def

lemmas deserialize_eval = deserialize_def element_count_def element_at_def int_of_size_t_def
  upt_rec

section \<open>Key-to-rank routing\<close>

lemma scast_pos_uint:
  fixes p :: c_int
  assumes "0 < sint p"
  shows "uint (scast p :: size_t) = sint p"
proof -
  have "sint p < 2 ^ 31"
    using sint_lt [of p] by simp
  also have "(2::int) ^ 31 \<le> 2 ^ 64" by (rule power_increasing) simp_all
  finally have lt: "sint p < 2 ^ 64" .
  have "uint (scast p :: size_t) = take_bit 64 (sint p)"
    by (simp only: scast_eq uint_word_of_int_eq) simp
  also have "\<dots> = sint p"
    using assms lt by (simp only: take_bit_int_eq_self_iff) simp
  finally show ?thesis .
qed

lemma sint_ucast_small:
  fixes m :: size_t
  assumes "uint m < 2 ^ 31"
  shows "sint (ucast m :: c_int) = uint m"
proof -
  have "sint (ucast m :: c_int) = signed_take_bit 31 (uint m)"
    by (simp only: ucast_eq sint_sbintrunc') simp
  also have "\<dots> = uint m"
  proof (rule signed_take_bit_int_eq_self)
    have "- (2 ^ 31) \<le> (0::int)" by simp
    also have "0 \<le> uint m" by simp
    finally show "- (2 ^ 31) \<le> uint m" .
    show "uint m < 2 ^ 31" by (rule assms)
  qed
  finally show ?thesis .
qed

lemma getTargetRank_in_range:
  assumes "0 < sint (comm_size s)"
  shows "\<exists>r. getTargetRank s k = Inr r
           \<and> sint r = uint (hashFunct s k) mod sint (comm_size s)
           \<and> 0 \<le> sint r \<and> sint r < sint (comm_size s)"
proof -
  let ?p = "comm_size s"
  let ?h = "hashFunct s k"
  let ?m = "?h mod (scast ?p :: size_t)"
  have p0: "?p \<noteq> 0" using assms by auto
  have up: "uint (scast ?p :: size_t) = sint ?p" by (rule scast_pos_uint [OF assms])
  have um: "uint ?m = uint ?h mod sint ?p"
    by (simp only: uint_mod_distrib up)
  have lt: "uint ?m < sint ?p" using um assms by simp
  have ge: "0 \<le> uint ?m" by simp
  have "sint ?p < 2 ^ 31" using sint_lt [of ?p] by simp
  with lt have lt31: "uint ?m < 2 ^ 31" by linarith
  have "sint (ucast ?m :: c_int) = uint ?m"
    by (rule sint_ucast_small [OF lt31])
  with um lt ge p0 show ?thesis
    by (simp add: getTargetRank_def Let_def)
qed

text \<open>
  C4. For every key \<open>k\<close>, the rank chosen to own \<open>k\<close> is the hash of \<open>k\<close> modulo the
  communicator size \<open>P\<close>: \<open>getTargetRank(k) = hashFunct(k) mod P\<close>. A communicator has at
  least one rank, so \<open>0 < P\<close>; the result is then a rank of the communicator.
\<close>

theorem getTargetRank_hash_mod:
  assumes "0 < sint (comm_size s)"
  shows "\<exists>r. getTargetRank s k = Inr r
           \<and> sint r = uint (hashFunct s k) mod sint (comm_size s)
           \<and> 0 \<le> sint r \<and> sint r < sint (comm_size s)"
  using assms by (rule getTargetRank_in_range)

theorem getTargetRank_hash_mod_witness:
  "0 < sint (4 :: c_int)
   \<and> (\<exists>r. getTargetRank (new_map 4 byte_hash :: (byte, byte, unit) dmap) 10 = Inr r
          \<and> sint r = 10 mod 4)"
  using getTargetRank_hash_mod [of "new_map 4 byte_hash :: (byte, byte, unit) dmap" 10]
  by (auto simp: new_map_def byte_hash_def)

section \<open>Asynchronous lookup\<close>

text \<open>
  C9. \<open>asyncLookup\<close> raises a runtime error if and only if the lookup-answer callback has
  not been set; in that case it sends nothing and leaves the object (local container,
  pending-lookup flag, messages handed over) as it was; otherwise (on a communicator,
  whose size is not zero) it sends the key to \<open>getTargetRank(key)\<close> with the lookup tag and
  sets the pending-lookup flag.
\<close>

theorem asyncLookup_raises_iff_no_callback:
  "((\<exists>m. fst (asyncLookup Kl s key) = Some (RuntimeError m)) \<longleftrightarrow> lookupAnswerCallbackFunc s = None)
   \<and> (lookupAnswerCallbackFunc s = None \<longrightarrow> snd (asyncLookup Kl s key) = s)
   \<and> (lookupAnswerCallbackFunc s \<noteq> None \<and> comm_size s \<noteq> 0 \<longrightarrow>
        (\<exists>r. getTargetRank s key = Inr r
           \<and> asyncLookup Kl s key =
               (None, s\<lparr>sent := sent s @ [(r, LOOKUP_MPI_TAG, to_bytes Kl key)],
                        has_pending_lookups := True\<rparr>)))"
  by (auto simp: asyncLookup_def getTargetRank_def Let_def sendKey_def sendMessage_def
      split: sum.splits)

theorem asyncLookup_raises_iff_no_callback_witness:
  "lookupAnswerCallbackFunc demo_none = None
   \<and> asyncLookup byte_layout demo_none 7
       = (Some (RuntimeError ''ERROR: Callback function not set!''), demo_none)
   \<and> lookupAnswerCallbackFunc demo_set \<noteq> None \<and> comm_size demo_set \<noteq> 0
   \<and> asyncLookup byte_layout demo_set 7
       = (None, demo_set\<lparr>sent := [(3, LOOKUP_MPI_TAG, [7])], has_pending_lookups := True\<rparr>)"
  using asyncLookup_raises_iff_no_callback [of byte_layout demo_none 7]
    asyncLookup_raises_iff_no_callback [of byte_layout demo_set 7]
  by (auto simp: demo_none_def demo_set_def new_map_def setLookupAnswerCallback_def byte_layout_def
      byte_hash_def getTargetRank_def asyncLookup_def)

section \<open>Routing is stable over the lifetime of a map\<close>

lemma same_routing_refl: "same_routing s s"
  by (simp add: same_routing_def)

lemma same_routing_trans: "same_routing s s1 \<Longrightarrow> same_routing s1 s2 \<Longrightarrow> same_routing s s2"
  by (simp add: same_routing_def)

lemma same_routing_getTargetRank:
  assumes "same_routing s s'"
  shows "getTargetRank s' k = getTargetRank s k"
proof -
  from assms have "hashFunct s' = hashFunct s" and "comm_size s' = comm_size s"
    by (simp_all add: same_routing_def)
  then show ?thesis
    by (simp add: getTargetRank_def Let_def)
qed

lemma routing_sendMessage: "same_routing s (sendMessage s msg d t)"
  by (simp add: same_routing_def sendMessage_def)

lemma routing_flush: "same_routing s (flush s)"
  by (simp add: same_routing_def flush_def commLayer_flush_def Let_def)

lemma routing_asyncLookup: "same_routing s (snd (asyncLookup Kl s key))"
  by (simp add: same_routing_def asyncLookup_def sendKey_def sendMessage_def split: sum.splits)

lemma routing_insert_pair: "same_routing s (snd (insert_pair Pl s kv))"
  by (simp add: same_routing_def insert_pair_def sendPair_def sendMessage_def split: sum.splits)

lemma routing_insert_key_value: "same_routing s (snd (insert_key_value Pl s key val))"
  by (simp add: same_routing_def insert_key_value_def sendPair_def sendMessage_def split: sum.splits)

lemma routing_insert_key: "same_routing s (snd (insert_key Kl s key))"
  by (simp add: same_routing_def insert_key_def sendKey_def sendMessage_def split: sum.splits)

lemma routing_populate_loop: "same_routing s (snd (populate_loop Pl s batch))"
proof (induction batch arbitrary: s)
  case Nil
  show ?case by (simp add: same_routing_def)
next
  case (Cons it rest)
  show ?case
  proof (cases "getTargetRank s (fst it)")
    case (Inl e)
    then show ?thesis by (simp add: same_routing_def)
  next
    case (Inr r)
    have "same_routing s (sendPair Pl s it r INSERT_MPI_TAG)"
      by (simp add: sendPair_def routing_sendMessage)
    from same_routing_trans [OF this Cons.IH] Inr show ?thesis by simp
  qed
qed

lemma routing_populate: "same_routing s (snd (populate Pl s batch))"
  using routing_populate_loop [of s Pl batch]
  by (cases "populate_loop Pl s batch") (auto simp: populate_def commLayer_flush_def split: option.splits)

lemma routing_populate_keys_loop: "same_routing s (snd (populate_keys_loop Kl s batch))"
proof (induction batch arbitrary: s)
  case Nil
  show ?case by (simp add: same_routing_def)
next
  case (Cons it rest)
  show ?case
  proof (cases "getTargetRank s it")
    case (Inl e)
    then show ?thesis by (simp add: same_routing_def)
  next
    case (Inr r)
    have "same_routing s (sendKey Kl s it r INSERT_MPI_TAG)"
      by (simp add: sendKey_def routing_sendMessage)
    from same_routing_trans [OF this Cons.IH] Inr show ?thesis by simp
  qed
qed

lemma routing_populate_keys: "same_routing s (snd (populate_keys Kl s batch))"
  using routing_populate_keys_loop [of s Kl batch]
  by (cases "populate_keys_loop Kl s batch") (auto simp: populate_keys_def commLayer_flush_def split: option.splits)

lemma routing_fold:
  assumes "\<And>x s. same_routing s (f x s)"
  shows "same_routing s (fold f xs s)"
proof (induction xs arbitrary: s)
  case Nil
  show ?case by (simp add: same_routing_def)
next
  case (Cons x xs)
  from same_routing_trans [OF assms Cons.IH] show ?case by simp
qed

lemma routing_receivedInsertCallback: "same_routing s (receivedInsertCallback Pl s msg r)"
  unfolding receivedInsertCallback_def
  by (rule routing_fold) (simp add: same_routing_def)

lemma routing_receivedCountCallback: "same_routing s (receivedCountCallback Kl s msg r)"
  unfolding receivedCountCallback_def
  by (rule routing_fold) (simp add: same_routing_def)

lemma routing_receivedLookupCallback: "same_routing s (receivedLookupCallback Kl Pl s msg r)"
  unfolding receivedLookupCallback_def
  by (rule routing_fold, rule routing_fold) (simp add: sendPair_def routing_sendMessage)

lemma routing_multimap_call: "same_routing s (apply_multimap_call Kl Pl c s)"
  by (cases c)
    (simp_all add: routing_flush routing_asyncLookup routing_insert_pair routing_insert_key_value
      routing_populate routing_receivedInsertCallback routing_receivedLookupCallback,
     simp add: same_routing_def setLookupAnswerCallback_def)

lemma routing_counting_call: "same_routing s (apply_counting_call Kl Pl c s)"
  by (cases c)
    (simp_all add: routing_flush routing_asyncLookup routing_insert_key
      routing_populate_keys routing_receivedCountCallback routing_receivedLookupCallback,
     simp add: same_routing_def setLookupAnswerCallback_def)

text \<open>
  C5. Key-to-rank routing is deterministic within one map's lifetime: whatever calls the
  object has gone through in between (public member functions and receive callbacks, of
  the multimap or of the counting map), \<open>getTargetRank(k)\<close> returns the same rank, since
  no call changes the hash function or the communicator size.
\<close>

theorem getTargetRank_stable:
  "getTargetRank (fold (apply_multimap_call Kl Pl) calls s) k = getTargetRank s k
   \<and> getTargetRank (fold (apply_counting_call Kl' Pl') calls' s') k' = getTargetRank s' k'"
proof -
  have "same_routing s (fold (apply_multimap_call Kl Pl) calls s)"
    by (rule routing_fold) (rule routing_multimap_call)
  moreover have "same_routing s' (fold (apply_counting_call Kl' Pl') calls' s')"
    by (rule routing_fold) (rule routing_counting_call)
  ultimately show ?thesis by (simp add: same_routing_getTargetRank)
qed


section \<open>Raw bytes across the message boundary\<close>

lemma int_of_size_t_small:
  assumes "n \<le> INT_MAX"
  shows "int_of_size_t n = int n"
proof -
  have lt: "int n < 2 ^ 31" using assms by (simp add: INT_MAX_def)
  have "int_of_size_t n = sint (word_of_int (int n) :: c_int)"
    by (simp add: int_of_size_t_def)
  also have "\<dots> = signed_take_bit 31 (int n)"
    by (simp only: sint_sbintrunc') simp
  also have "\<dots> = int n"
  proof (rule signed_take_bit_int_eq_self)
    have "- (2 ^ 31) \<le> (0::int)" by simp
    also have "0 \<le> int n" by simp
    finally show "- (2 ^ 31) \<le> int n" .
    show "int n < 2 ^ 31" by (rule lt)
  qed
  finally show ?thesis .
qed

lemma take_drop_concat_uniform:
  assumes "\<forall>ys \<in> set yss. length ys = sz" and "i < length yss"
  shows "take sz (drop (i * sz) (concat yss)) = yss ! i"
  using assms
proof (induction yss arbitrary: i)
  case Nil
  then show ?case by simp
next
  case (Cons ys yss)
  show ?case
  proof (cases i)
    case 0
    with Cons.prems show ?thesis by simp
  next
    case (Suc j)
    with Cons.prems have "j < length yss" and "length ys = sz" by simp_all
    moreover from Cons.prems have "\<forall>ys \<in> set yss. length ys = sz" by simp
    ultimately show ?thesis using Cons.IH [of j] Suc by simp
  qed
qed

lemma length_concat_uniform:
  assumes "\<forall>ys \<in> set yss. length ys = sz"
  shows "length (concat yss) = length yss * sz"
  using assms by (induction yss) simp_all

lemma deserialize_serialized:
  assumes tc: "trivially_copyable L" and len: "length xs \<le> INT_MAX"
  shows "deserialize L (concat (map (to_bytes L) xs)) = xs"
proof -
  let ?sz = "size_of L"
  let ?msg = "concat (map (to_bytes L) xs)"
  from tc have sz: "0 < ?sz" and lens: "\<forall>ys \<in> set (map (to_bytes L) xs). length ys = ?sz"
    and rt: "\<And>x. from_bytes L (to_bytes L x) = x"
    by (auto simp: trivially_copyable_def)
  have "length ?msg = length xs * ?sz"
    using length_concat_uniform [OF lens] by simp
  with sz have "length ?msg div ?sz = length xs" by simp
  then have cnt: "nat (element_count L ?msg) = length xs"
    by (simp add: element_count_def int_of_size_t_small [OF len])
  have "element_at L ?msg i = xs ! i" if "i < length xs" for i
  proof -
    from that have "i < length (map (to_bytes L) xs)" by simp
    from take_drop_concat_uniform [OF lens this] that
    show ?thesis by (simp add: element_at_def rt)
  qed
  then have "map (element_at L ?msg) [0..<length xs] = map ((!) xs) [0..<length xs]"
    by simp
  also have "\<dots> = xs" by (rule map_nth)
  finally show ?thesis by (simp add: deserialize_def cnt)
qed

lemma deserialize_Nil: "deserialize L [] = []"
  by (simp add: deserialize_def element_count_def int_of_size_t_def)

lemma sent_fold_sendPair:
  "fold (\<lambda>p s1. sendPair Pl s1 p dst tag) ps s
     = s\<lparr>sent := sent s @ map (\<lambda>p. (dst, tag, to_bytes Pl p)) ps\<rparr>"
  by (induction ps arbitrary: s) (simp_all add: sendPair_def sendMessage_def)

lemma receivedLookupCallback_sent:
  "receivedLookupCallback Kl Pl s msg r
     = s\<lparr>sent := sent s @ map (\<lambda>p. (r, LOOKUP_ANSWER_MPI_TAG, to_bytes Pl p))
                              (concat (map (equal_range (local_map s)) (deserialize Kl msg)))\<rparr>"
proof -
  have "fold (\<lambda>key s1. fold (\<lambda>it s2. sendPair Pl s2 it r LOOKUP_ANSWER_MPI_TAG)
                 (equal_range (local_map s1) key) s1) ks s
        = s\<lparr>sent := sent s @ map (\<lambda>p. (r, LOOKUP_ANSWER_MPI_TAG, to_bytes Pl p))
                              (concat (map (equal_range (local_map s)) ks))\<rparr>" for ks
    by (induction ks arbitrary: s) (simp_all add: sent_fold_sendPair)
  then show ?thesis by (simp add: receivedLookupCallback_def)
qed

lemma byte_layout_copyable: "trivially_copyable byte_layout"
  by (simp add: trivially_copyable_def byte_layout_def)

lemma byte_pair_layout_copyable: "trivially_copyable byte_pair_layout"
  by (simp add: trivially_copyable_def byte_pair_layout_def)

text \<open>
  The padded pair of the counting map is trivially copyable as well: the padding bytes are
  not read back.
\<close>

lemma count_bytes_rejoin:
  fixes c :: count_t
  shows "ucast (ucast c :: byte) OR push_bit 8 (ucast (ucast (drop_bit 8 c) :: byte))
           OR push_bit 16 (ucast (ucast (drop_bit 16 c) :: byte))
           OR push_bit 24 (ucast (ucast (drop_bit 24 c) :: byte)) = c"
proof (rule bit_word_eqI)
  fix n assume "n < LENGTH(32)"
  then have n: "n < 32" by simp
  consider "n < 8" | "8 \<le> n" "n < 16" | "16 \<le> n" "n < 24" | "24 \<le> n" "n < 32"
    using n by linarith
  then show "bit (ucast (ucast c :: byte) OR push_bit 8 (ucast (ucast (drop_bit 8 c) :: byte))
           OR push_bit 16 (ucast (ucast (drop_bit 16 c) :: byte))
           OR push_bit 24 (ucast (ucast (drop_bit 24 c) :: byte)) :: count_t) n = bit c n"
    by cases (auto simp: bit_simps)
qed

lemma byte_count_layout_copyable: "trivially_copyable byte_count_layout"
  by (simp add: trivially_copyable_def byte_count_layout_def count_bytes_rejoin)

lemma int_of_size_t_2_31: "int_of_size_t 2147483648 = - 2147483648"
  by (simp add: int_of_size_t_def)

lemma deserialize_2_31_elements:
  assumes tc: "trivially_copyable L" and len: "length xs = 2147483648"
  shows "deserialize L (concat (map (to_bytes L) xs)) = []"
proof -
  from tc have sz: "0 < size_of L"
    and lens: "\<forall>ys \<in> set (map (to_bytes L) xs). length ys = size_of L"
    by (auto simp: trivially_copyable_def)
  have "length (concat (map (to_bytes L) xs)) = length xs * size_of L"
    using length_concat_uniform [OF lens] by simp
  with sz have "length (concat (map (to_bytes L) xs)) div size_of L = 2147483648"
    by (simp add: len)
  then show ?thesis
    by (simp add: deserialize_def element_count_def int_of_size_t_2_31)
qed

text \<open>
  C7, as the code has it. Serialisation of (key,value) pairs round-trips for every sequence
  of at most \<^verbatim>\<open>INT_MAX\<close> pairs. For a trivially-copyable pair type, \<open>sendPair\<close> hands
  over the \<^verbatim>\<open>sizeof\<close> bytes of each pair; a receive buffer holding these messages in
  order is read back, by reinterpreting the bytes and dividing the byte count by the pair
  size, as the original pairs in order, and \<open>receivedLookupAnswerCallback\<close> hands exactly
  these to the answer callback. The quotient is stored in an \<^verbatim>\<open>int\<close>: a buffer of
  \<open>2^31\<close> pairs is read back as no pair at all.
\<close>

theorem pairs_round_trip:
  assumes "trivially_copyable Pl" and "length ps \<le> INT_MAX"
    and "lookupAnswerCallbackFunc s' = Some f"
  shows "sent (fold (\<lambda>p s1. sendPair Pl s1 p dst tag) ps s)
           = sent s @ map (\<lambda>p. (dst, tag, to_bytes Pl p)) ps
         \<and> deserialize Pl (concat (map (to_bytes Pl) ps)) = ps
         \<and> receivedLookupAnswerCallback Pl s' (concat (map (to_bytes Pl) ps)) fromRank u
             = Inr (fold f ps u)"
  using assms
  by (simp add: sent_fold_sendPair deserialize_serialized receivedLookupAnswerCallback_def)

theorem pairs_round_trip_witness:
  "trivially_copyable byte_pair_layout \<and> length [(1, 2), (3, 4) :: byte \<times> byte] \<le> INT_MAX
   \<and> sent (fold (\<lambda>p s1. sendPair byte_pair_layout s1 p 0 LOOKUP_ANSWER_MPI_TAG) [(1, 2), (3, 4)] demo_none)
       = [(0, LOOKUP_ANSWER_MPI_TAG, [1, 2]), (0, LOOKUP_ANSWER_MPI_TAG, [3, 4])]
   \<and> deserialize byte_pair_layout [1, 2, 3, 4] = [(1, 2), (3, 4)]
   \<and> receivedLookupAnswerCallback byte_pair_layout demo_set [1, 2, 3, 4] 0 [] = Inr [(1, 2), (3, 4)]"
  using pairs_round_trip [where Pl = byte_pair_layout and ps = "[(1, 2), (3, 4)]" and dst = 0
      and tag = LOOKUP_ANSWER_MPI_TAG and s = demo_none and s' = demo_set
      and f = "\<lambda>p u. u @ [p]" and fromRank = 0 and u = "[]"]
  by (simp add: byte_pair_layout_copyable INT_MAX_def)
    (simp add: byte_pair_layout_def demo_set_def demo_none_def setLookupAnswerCallback_def new_map_def)

theorem round_trip_2_31_pairs_counterexample:
  "deserialize byte_pair_layout
       (concat (map (to_bytes byte_pair_layout) (replicate 2147483648 (1, 2)))) = []
   \<and> deserialize byte_pair_layout
       (concat (map (to_bytes byte_pair_layout) (replicate 2147483648 (1, 2))))
     \<noteq> replicate 2147483648 (1, 2)"
proof -
  have e: "deserialize byte_pair_layout
       (concat (map (to_bytes byte_pair_layout) (replicate 2147483648 (1, 2)))) = []"
    using byte_pair_layout_copyable by (rule deserialize_2_31_elements) simp
  have "length (replicate 2147483648 (1 :: byte, 2 :: byte)) \<noteq> length ([] :: (byte \<times> byte) list)"
    by simp
  then have "replicate 2147483648 (1 :: byte, 2 :: byte) \<noteq> []"
    by (metis)
  with e show ?thesis by simp
qed

section \<open>The lookup callback\<close>

text \<open>
  C8. Querying an empty map returns empty without error: for every batch of query keys,
  when the local container is empty the lookup callback sends nothing (it returns the
  object unchanged; the callback has no throwing path); likewise an empty batch produces no
  answer.
\<close>

theorem lookup_empty:
  "(local_map s = [] \<longrightarrow> receivedLookupCallback Kl Pl s msg r = s)
   \<and> receivedLookupCallback Kl Pl s [] r = s"
  by (simp add: receivedLookupCallback_sent deserialize_Nil equal_range_def)


theorem lookup_empty_witness:
  "local_map demo_none = []
   \<and> receivedLookupCallback byte_layout byte_pair_layout demo_none [1, 2, 3] 2 = demo_none
   \<and> receivedLookupCallback byte_layout byte_pair_layout demo_stored [] 2 = demo_stored"
  using lookup_empty [of demo_none byte_layout byte_pair_layout "[1, 2, 3]" 2]
    lookup_empty [of demo_stored byte_layout byte_pair_layout "[1, 2, 3]" 2]
  by (simp add: demo_none_def new_map_def)

lemma count_equal_range:
  "count (mset (equal_range m k)) p = (if fst p = k then count (mset m) p else 0)"
  by (induction m) (auto simp: equal_range_def)

lemma count_concat_equal_range:
  "count (mset (concat (map (equal_range m) ks))) p = count_list ks (fst p) * count (mset m) p"
  by (induction ks) (simp_all add: count_equal_range)

lemma count_list_distinct: "distinct ks \<Longrightarrow> count_list ks k = (if k \<in> set ks then 1 else 0)"
  by (induction ks) auto

lemma mset_concat_equal_range_distinct:
  assumes "distinct ks"
  shows "mset (concat (map (equal_range m) ks)) = mset (filter (\<lambda>p. fst p \<in> set ks) m)"
  by (rule multiset_eqI) (simp add: count_concat_equal_range count_list_distinct [OF assms])

lemma answers_of_lookup:
  "answers_sent s (receivedLookupCallback Kl Pl s msg r)
     = map (\<lambda>p. (r, LOOKUP_ANSWER_MPI_TAG, to_bytes Pl p))
           (concat (map (equal_range (local_map s)) (deserialize Kl msg)))"
  by (simp add: answers_sent_def receivedLookupCallback_sent)

text \<open>
  C6, as the code has it. The unfiltered lookup emits all matches: for every received
  batch, the lookup callback goes through the received keys in order and sends to the
  requesting rank one answer pair for each local pair with that key, and nothing else. So
  an answer pair is sent once for every occurrence of its key in the batch (not at all when
  its key is not queried, or when a queried key has no local match); when no key occurs
  twice in the batch, that is exactly one answer for each local pair whose key is queried.
\<close>

theorem lookup_emits_all_matches:
  "receivedLookupCallback Kl Pl s msg r
     = s\<lparr>sent := sent s @ map (\<lambda>p. (r, LOOKUP_ANSWER_MPI_TAG, to_bytes Pl p))
                              (concat (map (equal_range (local_map s)) (deserialize Kl msg)))\<rparr>
   \<and> (\<forall>p. count (mset (concat (map (equal_range (local_map s)) (deserialize Kl msg)))) p
            = count_list (deserialize Kl msg) (fst p) * count (mset (local_map s)) p)
   \<and> (distinct (deserialize Kl msg) \<longrightarrow> one_answer_per_matching_pair Kl Pl s msg r)"
proof (intro conjI allI impI)
  show "receivedLookupCallback Kl Pl s msg r
     = s\<lparr>sent := sent s @ map (\<lambda>p. (r, LOOKUP_ANSWER_MPI_TAG, to_bytes Pl p))
                              (concat (map (equal_range (local_map s)) (deserialize Kl msg)))\<rparr>"
    by (rule receivedLookupCallback_sent)
next
  fix p
  show "count (mset (concat (map (equal_range (local_map s)) (deserialize Kl msg)))) p
            = count_list (deserialize Kl msg) (fst p) * count (mset (local_map s)) p"
    by (rule count_concat_equal_range)
next
  assume d: "distinct (deserialize Kl msg)"
  have "mset (map (\<lambda>p. (r, LOOKUP_ANSWER_MPI_TAG, to_bytes Pl p))
           (concat (map (equal_range (local_map s)) (deserialize Kl msg))))
        = mset (map (\<lambda>p. (r, LOOKUP_ANSWER_MPI_TAG, to_bytes Pl p))
           (filter (\<lambda>p. fst p \<in> set (deserialize Kl msg)) (local_map s)))"
    using mset_concat_equal_range_distinct [OF d, of "local_map s"]
    by (metis mset_map)
  then show "one_answer_per_matching_pair Kl Pl s msg r"
    by (simp only: one_answer_per_matching_pair_def answers_of_lookup)
qed

theorem lookup_emits_all_matches_witness:
  "distinct (deserialize byte_layout [1, 3])
   \<and> one_answer_per_matching_pair byte_layout byte_pair_layout demo_stored [1, 3] 2
   \<and> answers_sent demo_stored (receivedLookupCallback byte_layout byte_pair_layout demo_stored [1, 3] 2)
       = [(2, LOOKUP_ANSWER_MPI_TAG, [1, 5]), (2, LOOKUP_ANSWER_MPI_TAG, [1, 6])]"
proof -
  have d: "distinct (deserialize byte_layout [1, 3])"
    by (simp add: deserialize_eval demo_defs)
  from lookup_emits_all_matches [of byte_layout byte_pair_layout demo_stored "[1, 3]" 2] d
  have "one_answer_per_matching_pair byte_layout byte_pair_layout demo_stored [1, 3] 2"
    by blast
  moreover have "answers_sent demo_stored
      (receivedLookupCallback byte_layout byte_pair_layout demo_stored [1, 3] 2)
       = [(2, LOOKUP_ANSWER_MPI_TAG, [1, 5]), (2, LOOKUP_ANSWER_MPI_TAG, [1, 6])]"
    by (simp add: answers_of_lookup equal_range_def deserialize_eval demo_defs)
  ultimately show ?thesis using d by simp
qed

theorem lookup_duplicate_keys_counterexample:
  "\<not> one_answer_per_matching_pair byte_layout byte_pair_layout demo_stored [2, 2] 0"
proof -
  have "answers_sent demo_stored
      (receivedLookupCallback byte_layout byte_pair_layout demo_stored [2, 2] 0)
       = [(0, LOOKUP_ANSWER_MPI_TAG, [2, 7]), (0, LOOKUP_ANSWER_MPI_TAG, [2, 7])]"
    by (simp add: answers_of_lookup equal_range_def deserialize_eval demo_defs)
  moreover have "filter (\<lambda>p. fst p \<in> set (deserialize byte_layout [2, 2])) (local_map demo_stored)
       = [(2, 7)]"
    by (simp add: deserialize_eval demo_defs)
  ultimately show ?thesis
    by (simp add: one_answer_per_matching_pair_def demo_defs)
qed


section \<open>Inserting into the multimap\<close>

lemma mset_multimap_insert: "mset (multimap_insert p m) = add_mset p (mset m)"
  by (induction m) simp_all

lemma length_multimap_insert: "length (multimap_insert p m) = Suc (length m)"
  by (induction m) simp_all

lemma fold_multimap_insert:
  "fold (\<lambda>element s1. s1\<lparr>local_map := multimap_insert element (local_map s1)\<rparr>) ps s
     = s\<lparr>local_map := fold multimap_insert ps (local_map s)\<rparr>"
  by (induction ps arbitrary: s) simp_all

lemma mset_fold_multimap_insert: "mset (fold multimap_insert ps m) = mset m + mset ps"
  by (induction ps arbitrary: m) (simp_all add: mset_multimap_insert)

lemma length_fold_multimap_insert: "length (fold multimap_insert ps m) = length m + length ps"
  by (induction ps arbitrary: m) (simp_all add: length_multimap_insert)

lemma receivedInsertCallback_appends:
  "receivedInsertCallback Pl s msg r
     = s\<lparr>local_map := fold multimap_insert (deserialize Pl msg) (local_map s)\<rparr>"
  by (simp add: receivedInsertCallback_def fold_multimap_insert)

lemma receivedInsertCallback_grows:
  "length (local_map (receivedInsertCallback Pl s msg r))
     = length (local_map s) + length (deserialize Pl msg)
   \<and> mset (local_map (receivedInsertCallback Pl s msg r))
     = mset (local_map s) + mset (deserialize Pl msg)"
  by (simp add: receivedInsertCallback_appends mset_fold_multimap_insert length_fold_multimap_insert)

text \<open>
  C3. For every (key,value) pair inserted into a \<open>distributed_multimap\<close>, the insert is to
  be handled by appending the pair to the local container. \<open>receivedInsertCallback\<close> does
  append (\<open>receivedInsertCallback_grows\<close>), but the constructor binds the insert tag to the
  name \<open>receivedCountCallback\<close>, which \<open>distributed_multimap\<close> does not have: a message
  with the insert tag runs no member function of the class, whereas the constructor of the
  counting map binds the insert tag to a member function of its own.
\<close>

theorem multimap_insert_tag_runs_no_member:
  "map_of distributed_multimap_callbacks INSERT_MPI_TAG = Some ReceivedCountCallback
   \<and> distributed_multimap_receive Kl Pl INSERT_MPI_TAG s msg fromRank u = None
   \<and> distributed_counting_map_receive Kl' Pl' INSERT_MPI_TAG s' msg' fromRank' u'
       = Some (None, receivedCountCallback Kl' s' msg' fromRank', u')"
  by (simp add: distributed_multimap_callbacks_def distributed_multimap_receive_def
      distributed_counting_map_callbacks_def distributed_counting_map_receive_def)


section \<open>The counting map\<close>

lemma map_of_map_increment:
  "map_of (map_increment k m) k' =
     (if k' = k then Some (stored_count m k + 1) else map_of m k')"
  by (induction m) (auto simp: stored_count_def)

lemma stored_count_map_increment:
  "stored_count (map_increment k m) k' = (if k' = k then stored_count m k + 1 else stored_count m k')"
  by (simp add: stored_count_def map_of_map_increment)

lemma keys_map_increment: "fst ` set (map_increment k m) = insert k (fst ` set m)"
  by (induction m) auto

lemma distinct_map_increment: "distinct (map fst m) \<Longrightarrow> distinct (map fst (map_increment k m))"
  by (induction m) (auto simp: keys_map_increment)

lemma fold_map_increment:
  "fold (\<lambda>key s1. s1\<lparr>local_map := map_increment key (local_map s1)\<rparr>) ks s
     = s\<lparr>local_map := fold map_increment ks (local_map s)\<rparr>"
  by (induction ks arbitrary: s) simp_all

lemma receivedCountCallback_increments:
  "receivedCountCallback Kl s msg r
     = s\<lparr>local_map := fold map_increment (deserialize Kl msg) (local_map s)\<rparr>"
  by (simp add: receivedCountCallback_def fold_map_increment)

lemma stored_count_fold_map_increment:
  "stored_count (fold map_increment ks m) k = stored_count m k + of_nat (count_list ks k)"
  by (induction ks arbitrary: m) (simp_all add: stored_count_map_increment)

lemma keys_fold_map_increment: "fst ` set (fold map_increment ks m) = set ks \<union> fst ` set m"
  by (induction ks arbitrary: m) (auto simp: keys_map_increment)

lemma distinct_fold_map_increment:
  "distinct (map fst m) \<Longrightarrow> distinct (map fst (fold map_increment ks m))"
  by (induction ks arbitrary: m) (simp_all add: distinct_map_increment)

lemma local_map_receive_counts:
  "local_map (receive_counts Kl s msgs) = fold map_increment (received_keys Kl msgs) (local_map s)"
  by (induction msgs arbitrary: s)
    (simp_all add: receive_counts_def received_keys_def receivedCountCallback_increments)

lemma stored_count_receive_counts:
  "stored_count (local_map (receive_counts Kl s msgs)) k
     = stored_count (local_map s) k + of_nat (count_list (received_keys Kl msgs) k)"
  by (simp add: local_map_receive_counts stored_count_fold_map_increment)

lemma stored_count_Nil: "stored_count [] k = 0"
  by (simp add: stored_count_def)

lemma unat_of_nat_count_t:
  assumes "n < 2 ^ 32"
  shows "unat (of_nat n :: count_t) = n"
  using assms by (simp add: unat_of_nat)

lemma insert_key_sends:
  assumes "comm_size s \<noteq> 0"
  shows "\<exists>r. getTargetRank s key = Inr r
           \<and> insert_key Kl s key
              = (None, s\<lparr>sent := sent s @ [(r, INSERT_MPI_TAG, to_bytes Kl key)],
                         has_pending_inserts := True\<rparr>)"
  using assms
  by (simp add: insert_key_def getTargetRank_def Let_def sendKey_def sendMessage_def)

lemma concat_singletons: "concat (map (\<lambda>x. [x]) xs) = xs"
  by (induction xs) simp_all

lemma deserialize_bytes:
  assumes "length xs \<le> INT_MAX"
  shows "deserialize byte_layout xs = xs"
  using deserialize_serialized [OF byte_layout_copyable assms]
  by (simp add: byte_layout_def concat_singletons)

lemma count_list_replicate: "count_list (replicate n x) y = (if x = y then n else 0)"
  by (induction n) auto

text \<open>
  C2, as the code has it. In the counting map, \<open>insert\<close> of a bare key sends the key to its
  owning rank, and every received key is a unit increment of the key's entry (created at 0
  when missing), whatever other keys are received in between and however the keys are
  spread over messages. The count is a \<^verbatim>\<open>uint32_t\<close>: after \<open>n\<close> received occurrences of
  a key the count stored in a fresh shard is \<open>n mod 2^32\<close>, which is exactly \<open>n\<close> as long as
  \<open>n < 2^32\<close>; insert([k,k,k]) followed by a lookup of k answers (k,3).
\<close>

theorem counting_map_counts_mod_2_32:
  "(comm_size s \<noteq> 0 \<longrightarrow>
      (\<exists>r. getTargetRank s key = Inr r
         \<and> insert_key Kl s key
            = (None, s\<lparr>sent := sent s @ [(r, INSERT_MPI_TAG, to_bytes Kl key)],
                       has_pending_inserts := True\<rparr>)))
   \<and> stored_count (local_map (receive_counts Kl s msgs)) key
       = stored_count (local_map s) key + of_nat (count_list (received_keys Kl msgs) key)
   \<and> (key \<in> fst ` set (local_map (receive_counts Kl s msgs))
        \<longleftrightarrow> key \<in> set (received_keys Kl msgs) \<or> key \<in> fst ` set (local_map s))
   \<and> (local_map s = [] \<longrightarrow>
        unat (stored_count (local_map (receive_counts Kl s msgs)) key)
          = count_list (received_keys Kl msgs) key mod 2 ^ 32)
   \<and> (local_map s = [] \<and> count_list (received_keys Kl msgs) key < 2 ^ 32 \<longrightarrow>
        count_is_number_of_inserts Kl s msgs key)"
proof (intro conjI impI)
  assume "comm_size s \<noteq> 0"
  then show "\<exists>r. getTargetRank s key = Inr r
         \<and> insert_key Kl s key
            = (None, s\<lparr>sent := sent s @ [(r, INSERT_MPI_TAG, to_bytes Kl key)],
                       has_pending_inserts := True\<rparr>)"
    by (rule insert_key_sends)
next
  show "stored_count (local_map (receive_counts Kl s msgs)) key
       = stored_count (local_map s) key + of_nat (count_list (received_keys Kl msgs) key)"
    by (rule stored_count_receive_counts)
next
  show "key \<in> fst ` set (local_map (receive_counts Kl s msgs))
        \<longleftrightarrow> key \<in> set (received_keys Kl msgs) \<or> key \<in> fst ` set (local_map s)"
    by (simp add: local_map_receive_counts keys_fold_map_increment)
next
  assume "local_map s = []"
  then have "stored_count (local_map (receive_counts Kl s msgs)) key
      = of_nat (count_list (received_keys Kl msgs) key)"
    by (simp add: stored_count_receive_counts stored_count_Nil)
  then show "unat (stored_count (local_map (receive_counts Kl s msgs)) key)
          = count_list (received_keys Kl msgs) key mod 2 ^ 32"
    by (simp add: unat_of_nat)
next
  assume a: "local_map s = [] \<and> count_list (received_keys Kl msgs) key < 2 ^ 32"
  then have "stored_count (local_map (receive_counts Kl s msgs)) key
      = of_nat (count_list (received_keys Kl msgs) key)"
    by (simp add: stored_count_receive_counts stored_count_Nil)
  with a show "count_is_number_of_inserts Kl s msgs key"
    by (simp add: count_is_number_of_inserts_def unat_of_nat_count_t)
qed

theorem count_wraps_counterexample:
  "\<not> count_is_number_of_inserts byte_layout demo_counting
       [(replicate (1073741824) 7, 0), (replicate (1073741824) 7, 0),
        (replicate (1073741824) 7, 0), (replicate (1073741824) 7, 0)] 7"
proof -
  let ?m = "(replicate (1073741824) (7 :: byte), 0 :: c_int)"
  let ?msgs = "[?m, ?m, ?m, ?m]"
  have d: "deserialize byte_layout (replicate (1073741824) (7 :: byte)) = replicate (1073741824) 7"
    by (rule deserialize_bytes) (simp add: INT_MAX_def)
  have c: "count_list (received_keys byte_layout ?msgs) 7 = 4294967296"
    by (simp add: received_keys_def d count_list_replicate)
  have "stored_count (local_map (receive_counts byte_layout demo_counting ?msgs)) 7
      = of_nat (count_list (received_keys byte_layout ?msgs) 7)"
    by (simp only: stored_count_receive_counts) (simp add: demo_counting_def new_map_def stored_count_Nil)
  then have "stored_count (local_map (receive_counts byte_layout demo_counting ?msgs)) 7 = 0"
    by (simp only: c) simp
  then show ?thesis
    by (simp only: count_is_number_of_inserts_def c) simp
qed

theorem counting_map_counts_mod_2_32_witness:
  "comm_size demo_counting \<noteq> 0
   \<and> insert_key byte_layout demo_counting 9
       = (None, demo_counting\<lparr>sent := [(0, INSERT_MPI_TAG, [9])], has_pending_inserts := True\<rparr>)
   \<and> local_map demo_counting = []
   \<and> count_list (received_keys byte_layout [([9, 4, 9], 0), ([9], 0)]) 9 = 3
   \<and> count_is_number_of_inserts byte_layout demo_counting [([9, 4, 9], 0), ([9], 0)] 9
   \<and> local_map (receive_counts byte_layout demo_counting [([9, 4, 9], 0), ([9], 0)])
       = [(9, 3), (4, 1)]
   \<and> sent (receivedLookupCallback byte_layout byte_count_layout
               (receive_counts byte_layout demo_counting [([9, 4, 9], 0), ([9], 0)]) [9] 0)
       = [(0, LOOKUP_ANSWER_MPI_TAG, [9, 0, 0, 0, 3, 0, 0, 0])]"
proof -
  let ?msgs = "[([9, 4, 9], 0), ([9], 0)] :: (byte list \<times> c_int) list"
  have k: "received_keys byte_layout ?msgs = [9, 4, 9, 9]"
    by (simp add: received_keys_def deserialize_bytes INT_MAX_def)
  have e: "local_map demo_counting = []" and z: "comm_size demo_counting \<noteq> 0"
    by (simp_all add: demo_counting_def new_map_def)
  have c: "count_list (received_keys byte_layout ?msgs) 9 = 3"
    by (simp add: k)
  from counting_map_counts_mod_2_32 [of demo_counting 9 byte_layout ?msgs] e z c
  have "insert_key byte_layout demo_counting 9
       = (None, demo_counting\<lparr>sent := [(0, INSERT_MPI_TAG, [9])], has_pending_inserts := True\<rparr>)"
    and "count_is_number_of_inserts byte_layout demo_counting ?msgs 9"
    by (auto simp: getTargetRank_def demo_counting_def new_map_def byte_hash_def byte_layout_def)
  moreover have l: "local_map (receive_counts byte_layout demo_counting ?msgs) = [(9, 3), (4, 1)]"
    by (simp add: local_map_receive_counts k e)
  moreover have "sent (receivedLookupCallback byte_layout byte_count_layout
               (receive_counts byte_layout demo_counting ?msgs) [9] 0)
       = [(0, LOOKUP_ANSWER_MPI_TAG, [9, 0, 0, 0, 3, 0, 0, 0])]"
    by (simp add: receivedLookupCallback_sent l deserialize_bytes INT_MAX_def
        equal_range_def receive_counts_def receivedCountCallback_increments
        demo_counting_def new_map_def byte_count_layout_def)
  ultimately show ?thesis using e z c by simp
qed


section \<open>Insert, then find\<close>

lemma sint_of_nat_small:
  assumes "n \<le> INT_MAX"
  shows "sint (of_nat n :: c_int) = int n"
  using int_of_size_t_small [OF assms] by (simp add: int_of_size_t_def)

lemma of_nat_c_int_inj:
  assumes "a \<le> INT_MAX" and "b \<le> INT_MAX"
  shows "(of_nat a :: c_int) = of_nat b \<longleftrightarrow> a = b"
proof
  assume "(of_nat a :: c_int) = of_nat b"
  then have "sint (of_nat a :: c_int) = sint (of_nat b :: c_int)" by simp
  then show "a = b" by (simp add: sint_of_nat_small assms)
qed simp

lemma getTargetRank_owner:
  assumes cs: "comm_size s = of_nat P" and P: "0 < P" "P \<le> INT_MAX"
  shows "getTargetRank s key = Inr (of_nat (owner (hashFunct s) P key))"
proof -
  have sP: "sint (comm_size s) = int P" by (simp add: cs sint_of_nat_small P)
  then have pos: "0 < sint (comm_size s)" using P by simp
  from getTargetRank_in_range [OF pos, of key]
  obtain r where r: "getTargetRank s key = Inr r"
    "sint r = uint (hashFunct s key) mod sint (comm_size s)" by blast
  have "uint (hashFunct s key) mod int P = int (unat (hashFunct s key) mod P)"
    by (simp add: zmod_int)
  with r sP have "sint r = int (owner (hashFunct s) P key)" by (simp add: owner_def)
  then have "of_int (sint r) = (of_nat (owner (hashFunct s) P key) :: c_int)" by simp
  then have "r = of_nat (owner (hashFunct s) P key)" by simp
  with r show ?thesis by simp
qed

lemma owner_less: "0 < P \<Longrightarrow> owner h P key < P"
  by (simp add: owner_def)

lemma populate_loop_sends:
  assumes "\<And>key. getTargetRank s key = Inr (tr key)"
  shows "populate_loop Pl s batch
     = (None, s\<lparr>sent := sent s @ map (\<lambda>p. (tr (fst p), INSERT_MPI_TAG, to_bytes Pl p)) batch\<rparr>)"
  using assms
proof (induction batch arbitrary: s)
  case Nil
  show ?case by simp
next
  case (Cons p batch)
  let ?s1 = "sendPair Pl s p (tr (fst p)) INSERT_MPI_TAG"
  have "same_routing s ?s1"
    by (simp add: same_routing_def sendPair_def sendMessage_def)
  then have "\<And>key. getTargetRank ?s1 key = Inr (tr key)"
    using Cons.prems by (simp add: same_routing_getTargetRank)
  from Cons.IH [OF this] Cons.prems show ?case
    by (simp add: sendPair_def sendMessage_def)
qed

lemma populate_sends:
  assumes "\<And>key. getTargetRank s key = Inr (tr key)"
  shows "populate Pl s batch
     = (None, s\<lparr>sent := sent s @ map (\<lambda>p. (tr (fst p), INSERT_MPI_TAG, to_bytes Pl p)) batch\<rparr>)"
  by (simp add: populate_def populate_loop_sends [OF assms] commLayer_flush_def)

lemma lookup_all_sends:
  assumes "\<And>key. getTargetRank s key = Inr (tr key)" and "lookupAnswerCallbackFunc s = Some f"
  shows "lookup_all Kl s keys
     = (None, s\<lparr>sent := sent s @ map (\<lambda>key. (tr key, LOOKUP_MPI_TAG, to_bytes Kl key)) keys,
               has_pending_lookups := (if keys = [] then has_pending_lookups s else True)\<rparr>)"
  using assms
proof (induction keys arbitrary: s)
  case Nil
  show ?case by simp
next
  case (Cons key keys)
  let ?s1 = "(sendKey Kl s key (tr key) LOOKUP_MPI_TAG)\<lparr>has_pending_lookups := True\<rparr>"
  have "same_routing s ?s1"
    by (simp add: same_routing_def sendKey_def sendMessage_def)
  then have a: "\<And>key. getTargetRank ?s1 key = Inr (tr key)"
    using Cons.prems by (simp add: same_routing_getTargetRank)
  have b: "lookupAnswerCallbackFunc ?s1 = Some f"
    using Cons.prems by (simp add: sendKey_def sendMessage_def)
  have "asyncLookup Kl s key = (None, ?s1)"
    using Cons.prems by (simp add: asyncLookup_def)
  with Cons.IH [OF a b] show ?case
    by (simp add: sendKey_def sendMessage_def)
qed

lemma payloads_Nil: "payloads d tag [] = []"
  by (simp add: payloads_def)

lemma payloads_append: "payloads d tag (a @ b) = payloads d tag a @ payloads d tag b"
  by (simp add: payloads_def)

lemma payloads_map:
  "payloads d tag (map (\<lambda>x. (dst x, tag', bytes x)) xs)
     = (if tag' = tag then concat (map bytes (filter (\<lambda>x. dst x = d) xs)) else [])"
  by (induction xs) (auto simp: payloads_def)

lemma fold_noop:
  assumes "\<And>x s. x \<in> set xs \<Longrightarrow> f x s = s"
  shows "fold f xs s = s"
  using assms by (induction xs arbitrary: s) simp_all

lemma fold_single_sender:
  assumes r: "r < P" and noop: "\<And>i s. i < P \<Longrightarrow> i \<noteq> r \<Longrightarrow> f i s = s"
  shows "fold f [0..<P] s = f r s"
proof -
  have "[0..<P] = [0..<r] @ r # [Suc r..<P]"
    using r by (metis le_add1 less_imp_add_positive upt_add_eq_append upt_conv_Cons zero_le
        add.commute add_0 less_or_eq_imp_le upt_rec)
  moreover have "fold f [0..<r] s = s"
    using r by (intro fold_noop noop) auto
  moreover have "fold f [Suc r..<P] s' = s'" for s'
    by (intro fold_noop noop) auto
  ultimately show ?thesis by simp
qed

lemma deliver_single_sender:
  assumes r: "r < length R" and d: "d < length R"
    and others: "\<And>i. i < length R \<Longrightarrow> i \<noteq> r \<Longrightarrow> payloads (of_nat d) tag (sent (R ! i)) = []"
    and noop: "\<And>s x. cb s [] x = s"
  shows "deliver cb tag R ! d = cb (R ! d) (payloads (of_nat d) tag (sent (R ! r))) (of_nat r)"
proof -
  have "fold (\<lambda>i s. cb s (payloads (of_nat d) tag (sent (R ! i))) (of_nat i)) [0..<length R] (R ! d)
      = cb (R ! d) (payloads (of_nat d) tag (sent (R ! r))) (of_nat r)"
    using r by (rule fold_single_sender) (simp add: others noop)
  with d show ?thesis by (simp add: deliver_def)
qed

lemma length_deliver: "length (deliver cb tag R) = length R"
  by (simp add: deliver_def)

lemma fresh_cluster_nth:
  assumes "fresh_cluster h ranks" and "i < length ranks"
  shows "comm_size (ranks ! i) = of_nat (length ranks)" and "hashFunct (ranks ! i) = h"
    and "sent (ranks ! i) = []" and "local_map (ranks ! i) = []"
  using assms by (simp_all add: fresh_cluster_def list_all_length)

lemma tags_distinct:
  "INSERT_MPI_TAG \<noteq> LOOKUP_MPI_TAG" "INSERT_MPI_TAG \<noteq> LOOKUP_ANSWER_MPI_TAG"
  "LOOKUP_MPI_TAG \<noteq> LOOKUP_ANSWER_MPI_TAG" "LOOKUP_MPI_TAG \<noteq> INSERT_MPI_TAG"
  "LOOKUP_ANSWER_MPI_TAG \<noteq> INSERT_MPI_TAG" "LOOKUP_ANSWER_MPI_TAG \<noteq> LOOKUP_MPI_TAG"
  by (simp_all add: INSERT_MPI_TAG_def LOOKUP_MPI_TAG_def LOOKUP_ANSWER_MPI_TAG_def)

lemma filter_owner_of_nat:
  assumes P: "0 < P" "P \<le> INT_MAX" and d: "d < P"
  shows "filter (\<lambda>x. (of_nat (owner h P (k x)) :: c_int) = of_nat d) xs
       = filter (\<lambda>x. owner h P (k x) = d) xs"
proof -
  have "((of_nat (owner h P (k x)) :: c_int) = of_nat d) = (owner h P (k x) = d)" for x
  proof (rule of_nat_c_int_inj)
    have "owner h P (k x) < P" using P(1) by (rule owner_less)
    with P(2) show "owner h P (k x) \<le> INT_MAX" by simp
    from d P(2) show "d \<le> INT_MAX" by simp
  qed
  then show ?thesis by simp
qed

lemma collect_fold:
  "fold (\<lambda>i acc. case acc of Inl e \<Rightarrow> Inl e | Inr u1 \<Rightarrow> Inr (fold f (A i) u1)) is (Inr u)
     = Inr (fold f (concat (map A is)) u)"
  by (induction "is" arbitrary: u) simp_all

lemma fold_cong_upt:
  assumes "\<And>i acc. i < n \<Longrightarrow> F i acc = G i acc"
  shows "fold F [0..<n] a = fold G [0..<n] a"
proof (rule fold_cong)
  fix x assume "x \<in> set [0..<n]"
  then have "x < n" by simp
  then show "F x = G x" by (intro ext assms)
qed simp_all


lemma insert_then_find_answers:
  fixes ranks :: "('k, 't, 'u) dmap list"
  assumes fresh: "fresh_cluster h ranks" and r: "r < length ranks"
    and PM: "length ranks \<le> INT_MAX"
    and cb: "lookupAnswerCallbackFunc (ranks ! r) = Some f"
    and Kl: "trivially_copyable Kl" and Pl: "trivially_copyable Pl"
    and lb: "length batch \<le> INT_MAX" and lk: "length keys \<le> INT_MAX"
    and la: "\<And>d. d < length ranks \<Longrightarrow> length (shard_answers h (length ranks) batch keys d) \<le> INT_MAX"
  shows "insert_then_find Kl Pl ranks r batch keys u
     = Inr (fold f (concat (map (shard_answers h (length ranks) batch keys) [0..<length ranks])) u)"
proof -
  define P where "P = length ranks"
  define tr :: "'k \<Rightarrow> c_int" where "tr key = of_nat (owner h P key)" for key
  define L where "L d = fold multimap_insert (shard_pairs h P batch d) []" for d
  define A where "A d = shard_answers h P batch keys d" for d
  have P0: "0 < P" and rP: "r < P" and PM': "P \<le> INT_MAX"
    using r PM by (auto simp: P_def)
  note fr = fresh_cluster_nth [OF fresh]
  \<comment> \<open>populate on rank r\<close>
  define s0 where "s0 = ranks ! r"
  have tr0: "getTargetRank s0 key = Inr (tr key)" for key
    using getTargetRank_owner [of s0 P key] fr(1,2) [OF r] P0 PM'
    by (simp add: s0_def tr_def P_def)
  define s1 where
    "s1 = s0\<lparr>sent := map (\<lambda>p. (tr (fst p), INSERT_MPI_TAG, to_bytes Pl p)) batch\<rparr>"
  have pop: "populate Pl s0 batch = (None, s1)"
    using populate_sends [of s0 tr Pl batch] tr0 fr(3) [OF r]
    by (simp add: s1_def s0_def)
  \<comment> \<open>the pairs reach receivedInsertCallback on their target ranks\<close>
  define R1 where "R1 = ranks[r := s1]"
  have lenR1: "length R1 = P" by (simp add: R1_def P_def)
  have R1r: "R1 ! r = s1" using r by (simp add: R1_def)
  have R1o: "R1 ! i = ranks ! i" if "i \<noteq> r" for i using that by (simp add: R1_def)
  have sentR1o: "sent (R1 ! i) = []" if "i < P" "i \<noteq> r" for i
    using that fr(3) [of i] by (simp add: R1o P_def)
  define ranks1 where "ranks1 = deliver (receivedInsertCallback Pl) INSERT_MPI_TAG R1"
  have len1: "length ranks1 = P" by (simp add: ranks1_def length_deliver lenR1)
  have ins_buf: "payloads (of_nat d) INSERT_MPI_TAG (sent s1)
      = concat (map (to_bytes Pl) (shard_pairs h P batch d))" if "d < P" for d
    using filter_owner_of_nat [OF P0 PM' that, of h fst batch]
    by (simp add: s1_def payloads_map tr_def shard_pairs_def)
  have r1: "ranks1 ! d = (R1 ! d)\<lparr>local_map := fold multimap_insert (shard_pairs h P batch d) (local_map (R1 ! d))\<rparr>"
    if d: "d < P" for d
  proof -
    have "ranks1 ! d = receivedInsertCallback Pl (R1 ! d)
        (payloads (of_nat d) INSERT_MPI_TAG (sent (R1 ! r))) (of_nat r)"
      unfolding ranks1_def
    proof (rule deliver_single_sender)
      show "r < length R1" "d < length R1" using rP d by (simp_all add: lenR1)
      show "payloads (of_nat d) INSERT_MPI_TAG (sent (R1 ! i)) = []"
        if "i < length R1" "i \<noteq> r" for i
        using that by (simp add: sentR1o lenR1 payloads_Nil)
      show "receivedInsertCallback Pl s [] x = s" for s :: "('k, 't, 'u) dmap" and x
        by (simp add: receivedInsertCallback_appends deserialize_Nil)
    qed
    moreover have "length (shard_pairs h P batch d) \<le> INT_MAX"
      using lb by (simp add: shard_pairs_def) (meson le_trans length_filter_le)
    ultimately show ?thesis
      by (simp add: R1r ins_buf [OF d] receivedInsertCallback_appends
          deserialize_serialized [OF Pl])
  qed
  have lm1: "local_map (ranks1 ! d) = L d" if "d < P" for d
  proof (cases "d = r")
    case True
    with r1 [OF that] show ?thesis
      using fr(4) [OF r] by (simp add: R1r s1_def s0_def L_def)
  next
    case False
    with r1 [OF that] show ?thesis
      using fr(4) [of d] that by (simp add: R1o L_def P_def)
  qed
  have sent1: "sent (ranks1 ! d) = sent (R1 ! d)" if "d < P" for d
    using r1 [OF that] by simp
  \<comment> \<open>the lookups of rank r\<close>
  define s1' where "s1' = ranks1 ! r"
  have s1'_eq: "s1' = s1\<lparr>local_map := L r\<rparr>"
    using r1 [OF rP] fr(4) [OF r] by (simp add: s1'_def R1r s1_def s0_def L_def)
  have tr1: "getTargetRank s1' key = Inr (tr key)" for key
  proof -
    have "same_routing s0 s1'" by (simp add: same_routing_def s1'_eq s1_def)
    then show ?thesis by (simp add: same_routing_getTargetRank tr0)
  qed
  have cb1: "lookupAnswerCallbackFunc s1' = Some f"
    using cb by (simp add: s1'_eq s1_def s0_def)
  define s2 where
    "s2 = s1'\<lparr>sent := sent s1' @ map (\<lambda>key. (tr key, LOOKUP_MPI_TAG, to_bytes Kl key)) keys,
              has_pending_lookups := (if keys = [] then has_pending_lookups s1' else True)\<rparr>"
  have look: "lookup_all Kl s1' keys = (None, s2)"
    unfolding s2_def using tr1 cb1 by (rule lookup_all_sends)
  \<comment> \<open>the keys reach receivedLookupCallback on their target ranks\<close>
  define R2 where "R2 = ranks1[r := s2]"
  have lenR2: "length R2 = P" by (simp add: R2_def len1)
  have R2r: "R2 ! r = s2" using rP by (simp add: R2_def len1)
  have R2o: "R2 ! i = ranks1 ! i" if "i \<noteq> r" for i using that by (simp add: R2_def)
  have sentR2o: "sent (R2 ! i) = []" if "i < P" "i \<noteq> r" for i
    using that by (simp add: R2o sent1 sentR1o)
  have sent_s2: "sent s2 = map (\<lambda>p. (tr (fst p), INSERT_MPI_TAG, to_bytes Pl p)) batch
      @ map (\<lambda>key. (tr key, LOOKUP_MPI_TAG, to_bytes Kl key)) keys"
    by (simp add: s2_def s1'_eq s1_def)
  have lmR2: "local_map (R2 ! d) = L d" if "d < P" for d
  proof (cases "d = r")
    case True
    then show ?thesis by (simp add: R2r s2_def s1'_eq)
  next
    case False
    then show ?thesis using that by (simp add: R2o lm1)
  qed
  define ranks2 where "ranks2 = deliver (receivedLookupCallback Kl Pl) LOOKUP_MPI_TAG R2"
  have len2: "length ranks2 = P" by (simp add: ranks2_def length_deliver lenR2)
  have look_buf: "payloads (of_nat d) LOOKUP_MPI_TAG (sent s2)
      = concat (map (to_bytes Kl) (shard_keys h P keys d))" if "d < P" for d
    using filter_owner_of_nat [OF P0 PM' that, of h "\<lambda>x. x" keys]
    by (simp add: sent_s2 payloads_append payloads_map tags_distinct tr_def shard_keys_def)
  have r2: "ranks2 ! d = (R2 ! d)\<lparr>sent := sent (R2 ! d)
        @ map (\<lambda>p. (of_nat r, LOOKUP_ANSWER_MPI_TAG, to_bytes Pl p)) (A d)\<rparr>"
    if d: "d < P" for d
  proof -
    have "ranks2 ! d = receivedLookupCallback Kl Pl (R2 ! d)
        (payloads (of_nat d) LOOKUP_MPI_TAG (sent (R2 ! r))) (of_nat r)"
      unfolding ranks2_def
    proof (rule deliver_single_sender)
      show "r < length R2" "d < length R2" using rP d by (simp_all add: lenR2)
      show "payloads (of_nat d) LOOKUP_MPI_TAG (sent (R2 ! i)) = []"
        if "i < length R2" "i \<noteq> r" for i
        using that by (simp add: sentR2o lenR2 payloads_Nil)
      show "receivedLookupCallback Kl Pl s [] x = s" for s :: "('k, 't, 'u) dmap" and x
        by (simp add: receivedLookupCallback_sent deserialize_Nil)
    qed
    moreover have "length (shard_keys h P keys d) \<le> INT_MAX"
      using lk by (simp add: shard_keys_def) (meson le_trans length_filter_le)
    ultimately show ?thesis
      by (simp add: R2r look_buf [OF d] receivedLookupCallback_sent
          deserialize_serialized [OF Kl] lmR2 [OF d] A_def shard_answers_def L_def)
  qed
  \<comment> \<open>the answers reach receivedLookupAnswerCallback on rank r\<close>
  have no_ans: "payloads (of_nat r) LOOKUP_ANSWER_MPI_TAG (sent (R2 ! i)) = []" if "i < P" for i
  proof (cases "i = r")
    case True
    then show ?thesis
      by (simp add: R2r sent_s2 payloads_append payloads_map tags_distinct)
  next
    case False
    then show ?thesis using that by (simp add: sentR2o payloads_Nil)
  qed
  have ans_buf: "payloads (of_nat r) LOOKUP_ANSWER_MPI_TAG (sent (ranks2 ! i))
      = concat (map (to_bytes Pl) (A i))" if "i < P" for i
    using r2 [OF that] no_ans [OF that]
    by (simp add: payloads_append payloads_map)
  have cb2: "lookupAnswerCallbackFunc (ranks2 ! r) = Some f"
    using r2 [OF rP] cb1 by (simp add: R2r s2_def)
  have step: "receivedLookupAnswerCallback Pl (ranks2 ! r)
        (payloads (of_nat r) LOOKUP_ANSWER_MPI_TAG (sent (ranks2 ! i))) (of_nat i) u1
      = Inr (fold f (A i) u1)" if "i < P" for i u1
  proof -
    have "length (A i) \<le> INT_MAX" using la [of i] that by (simp add: A_def P_def)
    then show ?thesis
      by (simp add: ans_buf [OF that] receivedLookupAnswerCallback_def cb2
          deserialize_serialized [OF Pl])
  qed
  have "collect_answers Pl ranks2 r u
      = fold (\<lambda>i acc. case acc of Inl e \<Rightarrow> Inl e | Inr u1 \<Rightarrow> Inr (fold f (A i) u1)) [0..<P] (Inr u)"
    unfolding collect_answers_def len2
    by (rule fold_cong_upt) (simp add: step split: sum.splits)
  also have "\<dots> = Inr (fold f (concat (map A [0..<P])) u)"
    by (rule collect_fold)
  finally have coll: "collect_answers Pl ranks2 r u = Inr (fold f (concat (map A [0..<P])) u)" .
  have "insert_then_find Kl Pl ranks r batch keys u = collect_answers Pl ranks2 r u"
    using pop look
    by (simp add: insert_then_find_def s0_def [symmetric] R1_def [symmetric]
        ranks1_def [symmetric] s1'_def [symmetric] R2_def [symmetric] ranks2_def [symmetric])
  with coll show ?thesis
    by (simp add: A_def [abs_def] P_def)
qed







lemma length_shard_answers_distinct:
  assumes "distinct keys"
  shows "length (shard_answers h P batch keys d) \<le> length batch"
proof -
  let ?L = "fold multimap_insert (shard_pairs h P batch d) []"
  let ?K = "shard_keys h P keys d"
  have "distinct ?K" using assms by (simp add: shard_keys_def)
  then have "mset (shard_answers h P batch keys d) = mset (filter (\<lambda>p. fst p \<in> set ?K) ?L)"
    unfolding shard_answers_def by (rule mset_concat_equal_range_distinct)
  then have "length (shard_answers h P batch keys d) = length (filter (\<lambda>p. fst p \<in> set ?K) ?L)"
    by (metis size_mset)
  also have "\<dots> \<le> length ?L" by (rule length_filter_le)
  also have "\<dots> = length (shard_pairs h P batch d)"
    by (simp add: length_fold_multimap_insert)
  also have "\<dots> \<le> length batch" by (simp add: shard_pairs_def)
  finally show ?thesis .
qed




lemma fold_snoc: "fold (\<lambda>p u. u @ [p]) xs u = u @ xs"
  by (induction xs arbitrary: u) simp_all


lemma fresh_demo_cluster: "fresh_cluster byte_hash demo_cluster"
  by (simp add: fresh_cluster_def demo_cluster_def demo_defs)

lemmas shard_eval = shard_answers_def shard_pairs_def shard_keys_def owner_def equal_range_def
  byte_hash_def



text \<open>
  On the three ranks, the answers come grouped by answering rank: rank 0 owns the key 3,
  rank 1 the key 1, rank 2 the key 2.
\<close>

lemma demo_cluster_answers:
  "insert_then_find byte_layout byte_pair_layout demo_cluster 0
           [(1, 5), (1, 6), (2, 7), (3, 8)] [1, 2, 3] [] = Inr [(3, 8), (1, 6), (1, 5), (2, 7)]"
proof -
  have "insert_then_find byte_layout byte_pair_layout demo_cluster 0
           [(1, 5), (1, 6), (2, 7), (3, 8)] [1, 2, 3] []
      = Inr (fold (\<lambda>p u. u @ [p])
          (concat (map (shard_answers byte_hash (length demo_cluster) [(1, 5), (1, 6), (2, 7), (3, 8)] [1, 2, 3])
             [0..<length demo_cluster])) [])"
  proof (rule insert_then_find_answers [OF fresh_demo_cluster])
    show "length (shard_answers byte_hash (length demo_cluster)
        [(1, 5), (1, 6), (2, 7), (3, 8) :: byte \<times> byte] [1, 2, 3] d) \<le> INT_MAX" for d
      using length_shard_answers_distinct [of "[1, 2, 3 :: byte]" byte_hash "length demo_cluster"
          "[(1, 5), (1, 6), (2, 7), (3, 8) :: byte \<times> byte]" d]
      by (simp add: INT_MAX_def)
  qed (simp_all add: demo_cluster_def setLookupAnswerCallback_def INT_MAX_def byte_layout_copyable byte_pair_layout_copyable)
  then show ?thesis
    by (simp add: fold_snoc demo_cluster_def shard_eval upt_rec)
qed


end
